theory Spec2Isabelle
  imports Main "HOL-Library.Monad_Syntax"
begin

section \<open>Strings\<close>

text \<open>
  The scraper works on JavaScript strings. A cell of the CSV is modelled as a
  \<open>string\<close>, one \<open>char\<close> for each code unit below 256. In that range the white
  space that \<open>String.prototype.trim\<close> strips and that the class \<open>\s\<close> of a regular
  expression matches is the same set: TAB, LF, VT, FF, CR, SPACE and NBSP.
\<close>

definition isWhiteSpace :: "char \<Rightarrow> bool" where
  "isWhiteSpace c \<longleftrightarrow>
     c = CHR 0x09 \<or> c = CHR 0x0A \<or> c = CHR 0x0B \<or> c = CHR 0x0C \<or> c = CHR 0x0D
     \<or> c = CHR 0x20 \<or> c = CHR 0xA0"

text \<open>\<open>s.trim()\<close>: the string without its leading and trailing white space.\<close>

definition trim :: "string \<Rightarrow> string" where
  "trim s = rev (dropWhile isWhiteSpace (rev (dropWhile isWhiteSpace s)))"

text \<open>
  \<open>s.replace(/\s\s+/g, " ")\<close>: the scan goes left to right; where a white space
  character is followed by another one the match is greedy, takes the whole run and
  is replaced by one space, and the scan goes on behind the run; any other character
  is copied.
\<close>

function replaceSpaceRuns :: "string \<Rightarrow> string" where
  "replaceSpaceRuns [] = []"
| "replaceSpaceRuns [c] = [c]"
| "replaceSpaceRuns (c # d # s) =
     (if isWhiteSpace c \<and> isWhiteSpace d
      then CHR '' '' # replaceSpaceRuns (dropWhile isWhiteSpace s)
      else c # replaceSpaceRuns (d # s))"
  by pat_completeness auto
termination
  by (relation "measure length") (auto simp: less_Suc_eq_le intro: le_SucI length_dropWhile_le)

section \<open>Address combiner\<close>

text \<open>
  \<^verbatim>\<open>
  let address = address1 + ((address1 !== "" && address2 !== "") ? " " : "") + address2;
  address = address.trim().replace(/\s\s+/g, " ");
  \<close>
\<close>

definition combineAddress :: "string \<Rightarrow> string \<Rightarrow> string" where
  "combineAddress address1 address2 =
     replaceSpaceRuns (trim (address1 @ (if address1 \<noteq> [] \<and> address2 \<noteq> [] then '' '' else []) @ address2))"

text \<open>
  The compiled copy of an earlier revision (the first program of
  \<open>src/unnamed/part_000\<close>) joins the two parts with a comma and a space:
  \<^verbatim>\<open>
  let address = address1 + ((address1 !== "" && address2 !== "") ? ", " : "") + address2;
  address = address.trim().replace(/\s\s+/g, " ");
  \<close>
\<close>

definition combineAddressComma :: "string \<Rightarrow> string \<Rightarrow> string" where
  "combineAddressComma address1 address2 =
     replaceSpaceRuns (trim (address1 @ (if address1 \<noteq> [] \<and> address2 \<noteq> [] then '', '' else []) @ address2))"

section \<open>Field locator\<close>

type_synonym row = "string list"

text \<open>
  The five column indexes that \<open>main\<close> declares before it scans the header row; each
  starts at \<open>-1\<close>.
\<close>

record header_mapping =
  applicationNumberColumnIndex :: int
  receivedDateColumnIndex :: int
  descriptionColumnIndex :: int
  addressColumnIndex1 :: int
  addressColumnIndex2 :: int

definition initialMapping :: header_mapping where
  "initialMapping =
     \<lparr>applicationNumberColumnIndex = -1, receivedDateColumnIndex = -1,
      descriptionColumnIndex = -1, addressColumnIndex1 = -1, addressColumnIndex2 = -1\<rparr>"

text \<open>The body of the header loop: the \<open>if\<close>/\<open>else if\<close> chain on one cell.\<close>

definition locateCell :: "header_mapping \<Rightarrow> int \<Rightarrow> string \<Rightarrow> header_mapping" where
  "locateCell m columnIndex cell =
     (if cell = ''ApplicationNumber'' then m\<lparr>applicationNumberColumnIndex := columnIndex\<rparr>
      else if cell = ''LodgementDate'' then m\<lparr>receivedDateColumnIndex := columnIndex\<rparr>
      else if cell = ''ApplicationDesc'' then m\<lparr>descriptionColumnIndex := columnIndex\<rparr>
      else if cell = ''PropertyAddress'' then m\<lparr>addressColumnIndex1 := columnIndex\<rparr>
      else if cell = ''PropertySuburbPostCode'' then m\<lparr>addressColumnIndex2 := columnIndex\<rparr>
      else m)"

text \<open>
  \<open>for (let columnIndex = 0; columnIndex < rows[0].length; columnIndex++)\<close>: the loop
  from \<open>columnIndex\<close> on, over the cells that are still to be read.
\<close>

fun locateLoop :: "header_mapping \<Rightarrow> nat \<Rightarrow> row \<Rightarrow> header_mapping" where
  "locateLoop m columnIndex [] = m"
| "locateLoop m columnIndex (cell # cells) =
     locateLoop (locateCell m (int columnIndex) cell) (Suc columnIndex) cells"

definition locateColumns :: "row \<Rightarrow> header_mapping" where
  "locateColumns header = locateLoop initialMapping 0 header"

text \<open>
  The test before the rows are read:
  \<open>applicationNumberColumnIndex < 0 || (addressColumnIndex1 < 0 && addressColumnIndex2 < 0)\<close>.
\<close>

definition mandatoryMissing :: "header_mapping \<Rightarrow> bool" where
  "mandatoryMissing m \<longleftrightarrow>
     applicationNumberColumnIndex m < 0 \<or> (addressColumnIndex1 m < 0 \<and> addressColumnIndex2 m < 0)"

text \<open>
  The slot that belongs to a recognized header name, for stating properties of all
  five slots at once.
\<close>

definition recognizedNames :: "string list" where
  "recognizedNames =
     [''ApplicationNumber'', ''LodgementDate'', ''ApplicationDesc'', ''PropertyAddress'',
      ''PropertySuburbPostCode'']"

definition slotOf :: "header_mapping \<Rightarrow> string \<Rightarrow> int" where
  "slotOf m name =
     (if name = ''ApplicationNumber'' then applicationNumberColumnIndex m
      else if name = ''LodgementDate'' then receivedDateColumnIndex m
      else if name = ''ApplicationDesc'' then descriptionColumnIndex m
      else if name = ''PropertyAddress'' then addressColumnIndex1 m
      else addressColumnIndex2 m)"

section \<open>Date normalizer\<close>

text \<open>
  Modelled from the spec: the strict parser behind
  \<open>moment(raw, "D/MM/YYYY HH:mm:ss A", true)\<close>, its \<open>isValid()\<close> and its
  \<open>format("YYYY-MM-DD")\<close> belong to the moment library, which is not among the sources.
  The model follows the format string of the source and section 4.3 of the
  specification: one or two digits of day, two of month, four of year, two each of
  hour, minute and second, the marker \<open>AM\<close> or \<open>PM\<close>, the separators as written,
  nothing before, between or behind them, and values that exist on the calendar and
  on the clock. An absent input (\<open>null\<close>) is invalid.
\<close>

definition isDigit :: "char \<Rightarrow> bool" where
  "isDigit c \<longleftrightarrow> c \<in> set ''0123456789''"

definition digitValue :: "char \<Rightarrow> nat" where
  "digitValue c = of_char c - 48"

definition digitChar :: "nat \<Rightarrow> char" where
  "digitChar n = char_of (48 + n)"

definition toInt :: "string \<Rightarrow> nat" where
  "toInt s = foldl (\<lambda>n c. 10 * n + digitValue c) 0 s"

definition zeroFill2 :: "nat \<Rightarrow> string" where
  "zeroFill2 n = [digitChar (n div 10 mod 10), digitChar (n mod 10)]"

definition zeroFill4 :: "nat \<Rightarrow> string" where
  "zeroFill4 n =
     [digitChar (n div 1000 mod 10), digitChar (n div 100 mod 10),
      digitChar (n div 10 mod 10), digitChar (n mod 10)]"

definition takeDigits :: "nat \<Rightarrow> string \<Rightarrow> (string \<times> string) option" where
  "takeDigits n s =
     (if n \<le> length s \<and> list_all isDigit (take n s) then Some (take n s, drop n s) else None)"

definition takeDay :: "string \<Rightarrow> (string \<times> string) option" where
  "takeDay s = (case takeDigits 2 s of Some r \<Rightarrow> Some r | None \<Rightarrow> takeDigits 1 s)"

definition takeLiteral :: "string \<Rightarrow> string \<Rightarrow> string option" where
  "takeLiteral lit s =
     (if take (length lit) s = lit then Some (drop (length lit) s) else None)"

definition takeMeridiem :: "string \<Rightarrow> (string \<times> string) option" where
  "takeMeridiem s =
     (if take 2 s = ''AM'' \<or> take 2 s = ''PM'' then Some (take 2 s, drop 2 s) else None)"

definition isLeapYear :: "nat \<Rightarrow> bool" where
  "isLeapYear y \<longleftrightarrow> (y mod 4 = 0 \<and> y mod 100 \<noteq> 0) \<or> y mod 400 = 0"

definition daysInMonth :: "nat \<Rightarrow> nat \<Rightarrow> nat" where
  "daysInMonth y m =
     (if m = 2 then (if isLeapYear y then 29 else 28)
      else if m = 4 \<or> m = 6 \<or> m = 9 \<or> m = 11 then 30 else 31)"

definition validDate :: "nat \<Rightarrow> nat \<Rightarrow> nat \<Rightarrow> bool" where
  "validDate y m d \<longleftrightarrow> 1 \<le> m \<and> m \<le> 12 \<and> 1 \<le> d \<and> d \<le> daysInMonth y m"

definition validTime :: "nat \<Rightarrow> nat \<Rightarrow> nat \<Rightarrow> bool" where
  "validTime h mi sec \<longleftrightarrow> h \<le> 23 \<and> mi \<le> 59 \<and> sec \<le> 59"

text \<open>The parse, token by token; the result is year, month and day.\<close>

definition strictParse :: "string \<Rightarrow> (nat \<times> nat \<times> nat) option" where
  "strictParse s0 =
     do {
       (dd, s1) \<leftarrow> takeDay s0;
       s2 \<leftarrow> takeLiteral ''/'' s1;
       (mo, s3) \<leftarrow> takeDigits 2 s2;
       s4 \<leftarrow> takeLiteral ''/'' s3;
       (yy, s5) \<leftarrow> takeDigits 4 s4;
       s6 \<leftarrow> takeLiteral '' '' s5;
       (hh, s7) \<leftarrow> takeDigits 2 s6;
       s8 \<leftarrow> takeLiteral '':'' s7;
       (mi, s9) \<leftarrow> takeDigits 2 s8;
       s10 \<leftarrow> takeLiteral '':'' s9;
       (ss, s11) \<leftarrow> takeDigits 2 s10;
       s12 \<leftarrow> takeLiteral '' '' s11;
       (ap, s13) \<leftarrow> takeMeridiem s12;
       if s13 = [] \<and> validDate (toInt yy) (toInt mo) (toInt dd)
          \<and> validTime (toInt hh) (toInt mi) (toInt ss)
       then Some (toInt yy, toInt mo, toInt dd) else None
     }"

text \<open>\<open>receivedDate.isValid() ? receivedDate.format("YYYY-MM-DD") : ""\<close>\<close>

definition normalizeDate :: "string option \<Rightarrow> string" where
  "normalizeDate raw =
     (case raw of
        None \<Rightarrow> []
      | Some s \<Rightarrow>
          (case strictParse s of
             None \<Rightarrow> []
           | Some (y, m, d) \<Rightarrow> zeroFill4 y @ ''-'' @ zeroFill2 m @ ''-'' @ zeroFill2 d))"

section \<open>Record extractor\<close>

text \<open>
  What rejects the promise of \<open>main\<close>: the \<open>TypeError\<close> of calling \<open>trim\<close> on
  \<open>undefined\<close>, and an error that the storage layer hands to the callback of
  \<open>insertRow\<close>.
\<close>

datatype error = TypeError | StorageError string

definition andThen :: "error + 'a \<Rightarrow> ('a \<Rightarrow> error + 'b) \<Rightarrow> error + 'b" where
  "andThen r f = (case r of Inl e \<Rightarrow> Inl e | Inr v \<Rightarrow> f v)"

text \<open>
  \<open>row[i].trim()\<close>: outside the row (\<open>i\<close> negative, or not below the row's length) the
  cell is \<open>undefined\<close> and the call raises.
\<close>

definition cellTrim :: "row \<Rightarrow> int \<Rightarrow> error + string" where
  "cellTrim row i =
     (if 0 \<le> i \<and> nat i < length row then Inr (trim (row ! nat i)) else Inl TypeError)"

record development_application =
  applicationNumber :: string
  address :: string
  description :: string
  informationUrl :: string
  commentUrl :: string
  scrapeDate :: string
  receivedDate :: string

definition CommentUrl :: string where
  "CommentUrl = ''mailto:Playford@playford.sa.gov.au''"

text \<open>
  The body of the row loop up to the call of \<open>insertRow\<close>: the cells are read in the
  order of the source, each read may raise; the result is the object handed to
  \<open>insertRow\<close>, or \<open>None\<close> when the test \<open>applicationNumber !== "" && address !== ""\<close>
  fails. \<open>today\<close> stands for \<open>moment().format("YYYY-MM-DD")\<close>.
\<close>

definition extractRecord ::
    "header_mapping \<Rightarrow> string \<Rightarrow> string \<Rightarrow> row \<Rightarrow> error + development_application option" where
  "extractRecord m url today row =
     andThen (cellTrim row (applicationNumberColumnIndex m)) (\<lambda>applicationNumber.
     andThen (if addressColumnIndex1 m < 0 then Inr [] else cellTrim row (addressColumnIndex1 m)) (\<lambda>address1.
     andThen (if addressColumnIndex2 m < 0 then Inr [] else cellTrim row (addressColumnIndex2 m)) (\<lambda>address2.
     andThen (if descriptionColumnIndex m < 0 then Inr [] else cellTrim row (descriptionColumnIndex m)) (\<lambda>description.
     andThen (if receivedDateColumnIndex m < 0 then Inr None
              else andThen (cellTrim row (receivedDateColumnIndex m)) (\<lambda>c. Inr (Some c))) (\<lambda>rawDate.
     let address = combineAddress address1 address2 in
     if applicationNumber \<noteq> [] \<and> address \<noteq> []
     then Inr (Some \<lparr>applicationNumber = applicationNumber,
                     address = address,
                     description = (if description = [] then ''No description provided'' else description),
                     informationUrl = url,
                     commentUrl = CommentUrl,
                     scrapeDate = today,
                     receivedDate = normalizeDate rawDate\<rparr>)
     else Inr None)))))"

section \<open>Upsert gateway\<close>

text \<open>The nine columns of the table \<open>[data]\<close>; \<open>None\<close> is SQL's \<open>null\<close>.\<close>

record stored_row =
  council_reference :: string
  address_col :: string
  description_col :: string
  info_url :: string
  comment_url :: string
  date_scraped :: string
  date_received :: string
  on_notice_from :: "string option"
  on_notice_to :: "string option"

text \<open>The values that \<open>insertRow\<close> binds to the nine parameters of the statement.\<close>

definition statementValues :: "development_application \<Rightarrow> stored_row" where
  "statementValues da =
     \<lparr>council_reference = applicationNumber da,
      address_col = address da,
      description_col = description da,
      info_url = informationUrl da,
      comment_url = commentUrl da,
      date_scraped = scrapeDate da,
      date_received = receivedDate da,
      on_notice_from = None,
      on_notice_to = None\<rparr>"

datatype log_line =
    Retrieving string
  | CouldNotParse string
  | Inserted string string string
  | Skipped string string string
  | ErrorLine error
  | Complete

text \<open>
  What the program acts on: the rows of \<open>[data]\<close> in the order of their insertion, the
  lines written to the console, and \<open>faults\<close>, the answers that the storage layer
  will give to the statements still to come (\<open>None\<close>: the statement runs,
  \<open>Some e\<close>: it fails with the error \<open>e\<close>; past the end of the list every statement
  runs).
\<close>

record world =
  table :: "stored_row list"
  faults :: "string option list"
  console :: "log_line list"

text \<open>
  Modelled from the spec: the SQLite engine behind the statement
  \<open>insert or ignore into [data] values (?, ?, ?, ?, ?, ?, ?, ?, ?)\<close> is not among the
  sources. On the table that \<open>initializeDatabase\<close> creates, with
  \<open>[council_reference] text primary key\<close>, the statement adds the row when no stored
  row has its key and reports one change; otherwise it leaves the table as it is and
  reports none (section 4.5 of the specification).
\<close>

definition insertOrIgnore :: "stored_row \<Rightarrow> stored_row list \<Rightarrow> stored_row list \<times> nat" where
  "insertOrIgnore r t =
     (if council_reference r \<in> set (map council_reference t) then (t, 0) else (t @ [r], 1))"

text \<open>
  One run of the prepared statement: the storage layer either fails, and then the
  table is as before, or executes the statement; the result is the error or
  \<open>this.changes\<close>.
\<close>

definition sqlStatementRun :: "stored_row \<Rightarrow> world \<Rightarrow> (error + nat) \<times> world" where
  "sqlStatementRun r w =
     (case faults w of
        Some e # rest \<Rightarrow> (Inl (StorageError e), w\<lparr>faults := rest\<rparr>)
      | None # rest \<Rightarrow>
          (case insertOrIgnore r (table w) of
             (t, changes) \<Rightarrow> (Inr changes, w\<lparr>table := t, faults := rest\<rparr>))
      | [] \<Rightarrow>
          (case insertOrIgnore r (table w) of
             (t, changes) \<Rightarrow> (Inr changes, w\<lparr>table := t\<rparr>)))"

definition consoleLog :: "log_line \<Rightarrow> world \<Rightarrow> world" where
  "consoleLog l w = w\<lparr>console := console w @ [l]\<rparr>"

text \<open>
  \<open>insertRow\<close>: the statement is run once; an error is written to the console and
  rejects the promise, otherwise the line \<open>Inserted\<close> or \<open>Skipped\<close> is written, by
  \<open>this.changes > 0\<close>, and the promise resolves.
\<close>

definition insertRow :: "development_application \<Rightarrow> world \<Rightarrow> (error + unit) \<times> world" where
  "insertRow da w =
     (case sqlStatementRun (statementValues da) w of
        (Inl e, w') \<Rightarrow> (Inl e, consoleLog (ErrorLine e) w')
      | (Inr changes, w') \<Rightarrow>
          (Inr (),
           consoleLog
             (if changes > 0
              then Inserted (applicationNumber da) (address da) (description da)
              else Skipped (applicationNumber da) (address da) (description da)) w'))"

section \<open>Pipeline\<close>

text \<open>
  \<open>for (let rowIndex = 1; rowIndex < rows.length; rowIndex++)\<close> over the rows that are
  still to be read: an exception of the row body or a rejected \<open>insertRow\<close> ends the
  loop, and the rows behind are not read.
\<close>

fun processRows ::
    "header_mapping \<Rightarrow> string \<Rightarrow> string \<Rightarrow> row list \<Rightarrow> world \<Rightarrow> (error + unit) \<times> world" where
  "processRows m url today [] w = (Inr (), w)"
| "processRows m url today (row # rows) w =
     (case extractRecord m url today row of
        Inl e \<Rightarrow> (Inl e, w)
      | Inr None \<Rightarrow> processRows m url today rows w
      | Inr (Some da) \<Rightarrow>
          (case insertRow da w of
             (Inl e, w') \<Rightarrow> (Inl e, w')
           | (Inr u, w') \<Rightarrow> processRows m url today rows w'))"

text \<open>
  The body of \<open>for (let url of selectedUrls)\<close>, from the parsed rows of the CSV on
  (retrieving the body and \<open>parse(body)\<close> are outside the model).
\<close>

definition processCsv :: "string \<Rightarrow> string \<Rightarrow> row list \<Rightarrow> world \<Rightarrow> (error + unit) \<times> world" where
  "processCsv today url rows w0 =
     (let w = consoleLog (Retrieving url) w0 in
      case rows of
        [] \<Rightarrow> (Inr (), w)
      | header # dataRows \<Rightarrow>
          (let m = locateColumns header in
           if mandatoryMissing m then (Inr (), consoleLog (CouldNotParse url) w)
           else processRows m url today dataRows w))"

fun processCsvs :: "string \<Rightarrow> (string \<times> row list) list \<Rightarrow> world \<Rightarrow> (error + unit) \<times> world" where
  "processCsvs today [] w = (Inr (), w)"
| "processCsvs today ((url, rows) # sources) w =
     (case processCsv today url rows w of
        (Inl e, w') \<Rightarrow> (Inl e, w')
      | (Inr u, w') \<Rightarrow> processCsvs today sources w')"

text \<open>\<open>main().then(() => console.log("Complete.")).catch(error => console.error(error))\<close>\<close>

definition run :: "string \<Rightarrow> (string \<times> row list) list \<Rightarrow> world \<Rightarrow> world" where
  "run today sources w =
     (case processCsvs today sources w of
        (Inl e, w') \<Rightarrow> consoleLog (ErrorLine e) w'
      | (Inr u, w') \<Rightarrow> consoleLog Complete w')"

section \<open>Predicates for stating the properties\<close>

text \<open>A string has a run of white space: two white space characters side by side.\<close>

fun hasSpaceRun :: "string \<Rightarrow> bool" where
  "hasSpaceRun [] \<longleftrightarrow> False"
| "hasSpaceRun [c] \<longleftrightarrow> False"
| "hasSpaceRun (c # d # s) \<longleftrightarrow> (isWhiteSpace c \<and> isWhiteSpace d) \<or> hasSpaceRun (d # s)"

text \<open>
  The runs of a string: its maximal blocks of white space characters and of other
  characters, in their order.
\<close>

fun groupRuns :: "string \<Rightarrow> string list" where
  "groupRuns [] = []"
| "groupRuns (c # s) =
     (case groupRuns s of
        [] \<Rightarrow> [[c]]
      | g # gs \<Rightarrow> if isWhiteSpace c = isWhiteSpace (hd g) then (c # g) # gs else [c] # g # gs)"

text \<open>
  Every run of two or more white space characters collapsed into a single space,
  everything else kept.
\<close>

definition collapseRuns :: "string \<Rightarrow> string" where
  "collapseRuns s =
     concat (map (\<lambda>g. if isWhiteSpace (hd g) \<and> 2 \<le> length g then '' '' else g) (groupRuns s))"

text \<open>A string neither starts nor ends with white space.\<close>

definition trimmed :: "string \<Rightarrow> bool" where
  "trimmed s \<longleftrightarrow> s = [] \<or> (\<not> isWhiteSpace (hd s) \<and> \<not> isWhiteSpace (last s))"

text \<open>
  The value \<open>v\<close> is what a slot for \<open>name\<close> has to hold after the scan of \<open>header\<close>:
  \<open>-1\<close> when no cell is the name, and the index of the last cell that is the name.
\<close>

definition slotHolds :: "row \<Rightarrow> string \<Rightarrow> int \<Rightarrow> bool" where
  "slotHolds header name v \<longleftrightarrow>
     (name \<notin> set header \<longrightarrow> v = -1) \<and>
     (\<forall>i<length header.
        header ! i = name \<and> (\<forall>j. i < j \<and> j < length header \<longrightarrow> header ! j \<noteq> name)
        \<longrightarrow> v = int i)"

text \<open>A slot that is not \<open>-1\<close> is an index of the header, and the cell there is the name.\<close>

definition slotInHeader :: "row \<Rightarrow> string \<Rightarrow> int \<Rightarrow> bool" where
  "slotInHeader header name v \<longleftrightarrow>
     (v \<noteq> -1 \<longrightarrow> 0 \<le> v \<and> v < int (length header) \<and> header ! nat v = name)"

text \<open>
  The row has a cell at the slot of the application number and at every other slot
  that is not negative.
\<close>

definition cellsPresent :: "header_mapping \<Rightarrow> row \<Rightarrow> bool" where
  "cellsPresent m row \<longleftrightarrow>
     0 \<le> applicationNumberColumnIndex m \<and> applicationNumberColumnIndex m < int (length row)
     \<and> addressColumnIndex1 m < int (length row)
     \<and> addressColumnIndex2 m < int (length row)
     \<and> descriptionColumnIndex m < int (length row)
     \<and> receivedDateColumnIndex m < int (length row)"

text \<open>The trimmed cell of a row at a slot, the empty string for a negative slot.\<close>

definition cellText :: "row \<Rightarrow> int \<Rightarrow> string" where
  "cellText row i = (if i < 0 then [] else trim (row ! nat i))"

section \<open>White space, trimming and runs\<close>

lemma replaceSpaceRuns_Nil_iff: "replaceSpaceRuns s = [] \<longleftrightarrow> s = []"
  by (induction s rule: replaceSpaceRuns.induct) auto

lemma isWhiteSpace_space: "isWhiteSpace (CHR '' '')"
  by (simp add: isWhiteSpace_def)

lemma hd_replaceSpaceRuns:
  "s \<noteq> [] \<Longrightarrow> isWhiteSpace (hd (replaceSpaceRuns s)) = isWhiteSpace (hd s)"
  by (induction s rule: replaceSpaceRuns.induct) (auto simp: isWhiteSpace_space)

lemma hd_dropWhile_not: "dropWhile P s \<noteq> [] \<Longrightarrow> \<not> P (hd (dropWhile P s))"
  using hd_dropWhile by blast

lemma no_run_replaceSpaceRuns: "\<not> hasSpaceRun (replaceSpaceRuns s)"
proof (induction s rule: replaceSpaceRuns.induct)
  case 1
  then show ?case by simp
next
  case (2 c)
  then show ?case by simp
next
  case (3 c d s)
  show ?case
  proof (cases "isWhiteSpace c \<and> isWhiteSpace d")
    case True
    let ?t = "dropWhile isWhiteSpace s"
    have ih: "\<not> hasSpaceRun (replaceSpaceRuns ?t)" using 3(1) True by simp
    show ?thesis
    proof (cases "replaceSpaceRuns ?t")
      case Nil
      with True show ?thesis by simp
    next
      case (Cons x xs)
      then have ne: "?t \<noteq> []"
        using replaceSpaceRuns_Nil_iff [of ?t] by (simp del: dropWhile_eq_Nil_conv)
      have "isWhiteSpace (hd (replaceSpaceRuns ?t)) = isWhiteSpace (hd ?t)"
        by (rule hd_replaceSpaceRuns [OF ne])
      moreover have "\<not> isWhiteSpace (hd ?t)" by (rule hd_dropWhile_not [OF ne])
      ultimately have "\<not> isWhiteSpace x" using Cons by simp
      with ih Cons True show ?thesis by simp
    qed
  next
    case False
    have ih: "\<not> hasSpaceRun (replaceSpaceRuns (d # s))" using 3(2) False by simp
    obtain x xs where xs: "replaceSpaceRuns (d # s) = x # xs"
      by (cases "replaceSpaceRuns (d # s)") (auto simp: replaceSpaceRuns_Nil_iff)
    have "isWhiteSpace x = isWhiteSpace d"
      using hd_replaceSpaceRuns [of "d # s"] xs by simp
    with ih xs False show ?thesis by auto
  qed
qed

lemma filter_dropWhile_not: "filter (\<lambda>c. \<not> P c) (dropWhile P s) = filter (\<lambda>c. \<not> P c) s"
  by (induction s) auto

lemma filter_replaceSpaceRuns:
  "filter (\<lambda>c. \<not> isWhiteSpace c) (replaceSpaceRuns s) = filter (\<lambda>c. \<not> isWhiteSpace c) s"
  by (induction s rule: replaceSpaceRuns.induct)
     (auto simp: isWhiteSpace_space filter_dropWhile_not)

lemma replaceSpaceRuns_id: "\<not> hasSpaceRun s \<Longrightarrow> replaceSpaceRuns s = s"
  by (induction s rule: replaceSpaceRuns.induct) auto

lemma last_dropWhile_not:
  "s \<noteq> [] \<Longrightarrow> \<not> P (last s) \<Longrightarrow> dropWhile P s \<noteq> [] \<and> last (dropWhile P s) = last s"
  by (induction s) (auto split: if_splits)

lemma last_replaceSpaceRuns:
  "s \<noteq> [] \<Longrightarrow> \<not> isWhiteSpace (last s) \<Longrightarrow> last (replaceSpaceRuns s) = last s"
proof (induction s rule: replaceSpaceRuns.induct)
  case 1
  then show ?case by simp
next
  case (2 c)
  then show ?case by simp
next
  case (3 c d s)
  show ?case
  proof (cases "isWhiteSpace c \<and> isWhiteSpace d")
    case True
    with 3(4) have ne: "s \<noteq> []" by auto
    with 3(4) have nl: "\<not> isWhiteSpace (last s)" by simp
    from last_dropWhile_not [of s isWhiteSpace] ne nl
    have a: "dropWhile isWhiteSpace s \<noteq> []" and b: "last (dropWhile isWhiteSpace s) = last s"
      by simp_all
    have "last (replaceSpaceRuns (dropWhile isWhiteSpace s)) = last s"
      using 3(1) [OF True a] b nl by simp
    moreover have "replaceSpaceRuns (dropWhile isWhiteSpace s) \<noteq> []"
      using a replaceSpaceRuns_Nil_iff [of "dropWhile isWhiteSpace s"] by blast
    ultimately show ?thesis using True ne by simp
  next
    case False
    with 3 show ?thesis by (auto simp: replaceSpaceRuns_Nil_iff)
  qed
qed

lemma trim_Nil_or_ends:
  "trim s = [] \<or> (\<not> isWhiteSpace (hd (trim s)) \<and> \<not> isWhiteSpace (last (trim s)))"
proof (cases "trim s = []")
  case True
  then show ?thesis by simp
next
  case False
  let ?t = "dropWhile isWhiteSpace s"
  let ?u = "dropWhile isWhiteSpace (rev ?t)"
  have u: "?u \<noteq> []" using False by (simp add: trim_def)
  then have t: "?t \<noteq> []" by (metis dropWhile.simps(1) rev.simps(1))
  have l: "\<not> isWhiteSpace (last (trim s))"
    using hd_dropWhile_not [OF u] u by (simp add: trim_def last_rev)
  have "\<not> isWhiteSpace (last (rev ?t))"
    using hd_dropWhile_not [OF t] t by (simp add: last_rev)
  with last_dropWhile_not [of "rev ?t" isWhiteSpace] t
  have "last ?u = hd ?t" by (simp add: last_rev)
  then have "hd (trim s) = hd ?t" using u by (simp add: trim_def hd_rev)
  with hd_dropWhile_not [OF t] l show ?thesis by simp
qed

lemma filter_trim: "filter (\<lambda>c. \<not> isWhiteSpace c) (trim s) = filter (\<lambda>c. \<not> isWhiteSpace c) s"
proof -
  have "filter (\<lambda>c. \<not> isWhiteSpace c) (trim s)
        = rev (filter (\<lambda>c. \<not> isWhiteSpace c) (dropWhile isWhiteSpace (rev (dropWhile isWhiteSpace s))))"
    by (simp add: trim_def rev_filter)
  also have "\<dots> = rev (filter (\<lambda>c. \<not> isWhiteSpace c) (rev (dropWhile isWhiteSpace s)))"
    by (simp only: filter_dropWhile_not)
  also have "\<dots> = filter (\<lambda>c. \<not> isWhiteSpace c) (dropWhile isWhiteSpace s)"
    by (simp add: rev_filter)
  finally show ?thesis by (simp add: filter_dropWhile_not)
qed

lemma trim_id: "trimmed s \<Longrightarrow> trim s = s"
proof (cases "s = []")
  case True
  then show ?thesis by (simp add: trim_def)
next
  case False
  assume "trimmed s"
  with False have h: "\<not> isWhiteSpace (hd s)" and l: "\<not> isWhiteSpace (last s)"
    by (auto simp: trimmed_def)
  from False h have a: "dropWhile isWhiteSpace s = s" by (cases s) auto
  from False l have "dropWhile isWhiteSpace (rev s) = rev s"
    by (cases "rev s") (auto simp: last_rev hd_rev)
  with a show ?thesis by (simp add: trim_def)
qed

lemma hasSpaceRun_append:
  "hasSpaceRun (xs @ ys) \<longleftrightarrow>
     hasSpaceRun xs \<or> hasSpaceRun ys \<or> (xs \<noteq> [] \<and> ys \<noteq> [] \<and> isWhiteSpace (last xs) \<and> isWhiteSpace (hd ys))"
proof (induction xs rule: hasSpaceRun.induct)
  case 1
  then show ?case by simp
next
  case (2 c)
  then show ?case by (cases ys) auto
next
  case (3 c d s)
  then show ?case by auto
qed


lemma trimmed_trim: "trimmed (trim s)"
  unfolding trimmed_def by (rule trim_Nil_or_ends)

lemma trimmed_replaceSpaceRuns: "trimmed s \<Longrightarrow> trimmed (replaceSpaceRuns s)"
  unfolding trimmed_def
  using hd_replaceSpaceRuns [of s] last_replaceSpaceRuns [of s] replaceSpaceRuns_Nil_iff [of s]
  by auto

lemma groupRuns_Cons:
  "groupRuns (c # s) \<noteq> [] \<and> hd (groupRuns (c # s)) \<noteq> [] \<and> hd (hd (groupRuns (c # s))) = c"
  by (simp split: list.splits)

lemma concat_groupRuns: "concat (groupRuns s) = s"
  by (induction s) (auto split: list.splits)

lemma groupRuns_white:
  "isWhiteSpace c \<Longrightarrow>
   groupRuns (c # s) = (c # takeWhile isWhiteSpace s) # groupRuns (dropWhile isWhiteSpace s)"
proof (induction s arbitrary: c)
  case Nil
  then show ?case by simp
next
  case (Cons x xs)
  show ?case
  proof (cases "isWhiteSpace x")
    case True
    from Cons.IH [OF True] Cons.prems True show ?thesis by simp
  next
    case False
    obtain g gs where g: "groupRuns (x # xs) = g # gs" and h: "hd g = x"
      using groupRuns_Cons [of x xs] by (cases "groupRuns (x # xs)") auto
    have "groupRuns (c # x # xs) = [c] # g # gs"
      using g h False Cons.prems by (simp del: groupRuns.simps add: groupRuns.simps(2) [of c "x # xs"])
    with g False show ?thesis by simp
  qed
qed

lemma collapseRuns_Nil: "collapseRuns [] = []"
  by (simp add: collapseRuns_def)

lemma collapseRuns_white_run:
  assumes "isWhiteSpace c" "isWhiteSpace d"
  shows "collapseRuns (c # d # s) = CHR '' '' # collapseRuns (dropWhile isWhiteSpace s)"
proof -
  have "groupRuns (c # d # s)
      = (c # d # takeWhile isWhiteSpace s) # groupRuns (dropWhile isWhiteSpace s)"
    using groupRuns_white [OF assms(1), of "d # s"] assms(2) by simp
  then show ?thesis using assms(1) by (simp add: collapseRuns_def)
qed

lemma collapseRuns_copy:
  assumes "\<not> (isWhiteSpace c \<and> isWhiteSpace d)"
  shows "collapseRuns (c # d # s) = c # collapseRuns (d # s)"
proof -
  obtain g gs where g: "groupRuns (d # s) = g # gs" and h: "hd g = d" and n: "g \<noteq> []"
    using groupRuns_Cons [of d s] by (cases "groupRuns (d # s)") auto
  show ?thesis
  proof (cases "isWhiteSpace c = isWhiteSpace d")
    case True
    with assms have nc: "\<not> isWhiteSpace c" and nd: "\<not> isWhiteSpace d" by auto
    have "groupRuns (c # d # s) = (c # g) # gs"
      using g h True by (simp del: groupRuns.simps add: groupRuns.simps(2) [of c "d # s"])
    with g h nc nd show ?thesis by (simp add: collapseRuns_def)
  next
    case False
    have "groupRuns (c # d # s) = [c] # g # gs"
      using g h False by (simp del: groupRuns.simps add: groupRuns.simps(2) [of c "d # s"])
    with g show ?thesis by (simp add: collapseRuns_def)
  qed
qed

lemma collapseRuns_single: "collapseRuns [c] = [c]"
  by (simp add: collapseRuns_def)

lemma replaceSpaceRuns_collapseRuns: "replaceSpaceRuns s = collapseRuns s"
proof (induction s rule: replaceSpaceRuns.induct)
  case 1
  show ?case by (simp add: collapseRuns_Nil)
next
  case (2 c)
  show ?case by (simp add: collapseRuns_single)
next
  case (3 c d s)
  show ?case
  proof (cases "isWhiteSpace c \<and> isWhiteSpace d")
    case True
    with 3(1) show ?thesis by (simp add: collapseRuns_white_run)
  next
    case False
    then have "replaceSpaceRuns (c # d # s) = c # replaceSpaceRuns (d # s)" by auto
    with 3(2) [OF False] collapseRuns_copy [OF False, of s] show ?thesis by simp
  qed
qed

lemma trim_decomposition:
  "\<exists>l r. s = l @ trim s @ r \<and> list_all isWhiteSpace l \<and> list_all isWhiteSpace r"
proof -
  let ?l = "takeWhile isWhiteSpace s"
  let ?t = "dropWhile isWhiteSpace s"
  let ?r = "rev (takeWhile isWhiteSpace (rev ?t))"
  have "rev (takeWhile isWhiteSpace (rev ?t) @ dropWhile isWhiteSpace (rev ?t)) = rev (rev ?t)"
    by (simp only: takeWhile_dropWhile_id)
  then have "rev (dropWhile isWhiteSpace (rev ?t)) @ ?r = ?t"
    by (simp only: rev_append rev_rev_ident)
  then have t: "?t = trim s @ ?r" by (simp only: trim_def)
  have "s = ?l @ ?t" by simp
  with t have "s = ?l @ trim s @ ?r" by simp
  moreover have "list_all isWhiteSpace ?l" by (simp add: list_all_iff) (meson set_takeWhileD)
  moreover have "list_all isWhiteSpace ?r" by (simp add: list_all_iff) (meson set_takeWhileD)
  ultimately show ?thesis by blast
qed

lemma combineAddress_collapse:
  "\<exists>l t r. address1 @ (if address1 \<noteq> [] \<and> address2 \<noteq> [] then '' '' else []) @ address2 = l @ t @ r
     \<and> list_all isWhiteSpace l \<and> list_all isWhiteSpace r \<and> trimmed t
     \<and> combineAddress address1 address2 = collapseRuns t"
proof -
  let ?j = "address1 @ (if address1 \<noteq> [] \<and> address2 \<noteq> [] then '' '' else []) @ address2"
  from trim_decomposition [of ?j] obtain l r where
    "?j = l @ trim ?j @ r" "list_all isWhiteSpace l" "list_all isWhiteSpace r" by blast
  moreover have "trimmed (trim ?j)" by (rule trimmed_trim)
  moreover have "combineAddress address1 address2 = collapseRuns (trim ?j)"
    unfolding combineAddress_def by (rule replaceSpaceRuns_collapseRuns)
  ultimately show ?thesis by blast
qed

lemma combineAddress_clean:
  assumes "trimmed a1" "trimmed a2" "\<not> hasSpaceRun a1" "\<not> hasSpaceRun a2"
  shows "combineAddress a1 a2 = (if a1 = [] then a2 else if a2 = [] then a1 else a1 @ '' '' @ a2)"
proof -
  let ?s = "a1 @ (if a1 \<noteq> [] \<and> a2 \<noteq> [] then '' '' else []) @ a2"
  have t: "trimmed ?s" using assms(1,2) by (auto simp: trimmed_def)
  have "\<not> hasSpaceRun (CHR '' '' # a2)" if "a2 \<noteq> []"
    using that assms(2,4) by (cases a2) (auto simp: trimmed_def)
  then have r: "\<not> hasSpaceRun ?s"
    using assms by (auto simp: hasSpaceRun_append trimmed_def)
  have "combineAddress a1 a2 = ?s"
    unfolding combineAddress_def using trim_id [OF t] replaceSpaceRuns_id [OF r] by simp
  then show ?thesis by simp
qed

section \<open>The address combiner joins, trims and collapses\<close>

text \<open>
  Claim C5. For all pairs of fragments the combined address is determined as
  follows: the two fragments are concatenated, with one space between them exactly
  when both are non-empty; the concatenation is some white space, a part \<open>t\<close> that
  neither starts nor ends with white space, and some white space; and the result is
  \<open>t\<close> with every run of two or more white space characters collapsed into one
  space and everything else kept. Hence the result has no run of two or more white
  space characters, neither starts nor ends with white space, and keeps the other
  characters of the two fragments in their order; for fragments that are themselves
  trimmed and free of runs it is the first fragment, one space, the second fragment
  when both are non-empty, and the non-empty one (or the empty string) otherwise. In
  particular combine("","") = "", combine("A","") = "A", combine("","B") = "B",
  combine("A","B") = "A B" and combine("A  "," B") = "A B".
\<close>

theorem combineAddress_properties:
  "\<not> hasSpaceRun (combineAddress a1 a2)
   \<and> trimmed (combineAddress a1 a2)
   \<and> filter (\<lambda>c. \<not> isWhiteSpace c) (combineAddress a1 a2) = filter (\<lambda>c. \<not> isWhiteSpace c) (a1 @ a2)
   \<and> (trimmed a1 \<and> trimmed a2 \<and> \<not> hasSpaceRun a1 \<and> \<not> hasSpaceRun a2 \<longrightarrow>
        combineAddress a1 a2 = (if a1 = [] then a2 else if a2 = [] then a1 else a1 @ '' '' @ a2))
   \<and> combineAddress [] [] = []
   \<and> combineAddress ''A'' [] = ''A''
   \<and> combineAddress [] ''B'' = ''B''
   \<and> combineAddress ''A'' ''B'' = ''A B''
   \<and> combineAddress ''A  '' '' B'' = ''A B''
   \<and> (\<exists>l t r.
        a1 @ (if a1 \<noteq> [] \<and> a2 \<noteq> [] then '' '' else []) @ a2 = l @ t @ r
        \<and> list_all isWhiteSpace l \<and> list_all isWhiteSpace r \<and> trimmed t
        \<and> combineAddress a1 a2 = collapseRuns t)
   \<and> combineAddress ''12  Main St'' ''Elizabeth 5112'' = ''12 Main St Elizabeth 5112''
   \<and> combineAddress ''A\<newline>\<newline>B'' ''C'' = ''A B C''"
proof -
  have 1: "\<not> hasSpaceRun (combineAddress a1 a2)"
    unfolding combineAddress_def by (rule no_run_replaceSpaceRuns)
  have 2: "trimmed (combineAddress a1 a2)"
    unfolding combineAddress_def by (rule trimmed_replaceSpaceRuns [OF trimmed_trim])
  have 3: "filter (\<lambda>c. \<not> isWhiteSpace c) (combineAddress a1 a2) = filter (\<lambda>c. \<not> isWhiteSpace c) (a1 @ a2)"
    unfolding combineAddress_def by (simp add: filter_replaceSpaceRuns filter_trim isWhiteSpace_space)
  have 4: "trimmed a1 \<and> trimmed a2 \<and> \<not> hasSpaceRun a1 \<and> \<not> hasSpaceRun a2 \<longrightarrow>
        combineAddress a1 a2 = (if a1 = [] then a2 else if a2 = [] then a1 else a1 @ '' '' @ a2)"
    using combineAddress_clean by blast
  have 5: "combineAddress [] [] = []" by (simp add: combineAddress_def trim_def)
  have 6: "combineAddress ''A'' [] = ''A''" by (simp add: combineAddress_def trim_def isWhiteSpace_def)
  have 7: "combineAddress [] ''B'' = ''B''" by (simp add: combineAddress_def trim_def isWhiteSpace_def)
  have 8: "combineAddress ''A'' ''B'' = ''A B''" by (simp add: combineAddress_def trim_def isWhiteSpace_def)
  have 9: "combineAddress ''A  '' '' B'' = ''A B''" by (simp add: combineAddress_def trim_def isWhiteSpace_def)
  have 10: "\<exists>l t r.
        a1 @ (if a1 \<noteq> [] \<and> a2 \<noteq> [] then '' '' else []) @ a2 = l @ t @ r
        \<and> list_all isWhiteSpace l \<and> list_all isWhiteSpace r \<and> trimmed t
        \<and> combineAddress a1 a2 = collapseRuns t"
    by (rule combineAddress_collapse)
  have 11: "combineAddress ''12  Main St'' ''Elizabeth 5112'' = ''12 Main St Elizabeth 5112''"
    by (simp add: combineAddress_def trim_def isWhiteSpace_def)
  have 12: "combineAddress ''A\<newline>\<newline>B'' ''C'' = ''A B C''"
    by (simp add: combineAddress_def trim_def isWhiteSpace_def)
  show ?thesis by (intro conjI; (rule 1 2 3 4 5 6 7 8 9 10 11 12))
qed

theorem combineAddress_properties_witness:
  "trimmed ''12 Main St'' \<and> trimmed ''Elizabeth 5112'' \<and> \<not> hasSpaceRun ''12 Main St''
   \<and> \<not> hasSpaceRun ''Elizabeth 5112''
   \<and> combineAddress ''12 Main St'' ''Elizabeth 5112'' = ''12 Main St Elizabeth 5112''"
proof -
  have h: "trimmed ''12 Main St'' \<and> trimmed ''Elizabeth 5112'' \<and> \<not> hasSpaceRun ''12 Main St''
      \<and> \<not> hasSpaceRun ''Elizabeth 5112''"
    by code_simp
  note c = combineAddress_properties [of "''12 Main St''" "''Elizabeth 5112''",
      THEN conjunct2, THEN conjunct2, THEN conjunct2, THEN conjunct1, THEN mp, OF h]
  have "combineAddress ''12 Main St'' ''Elizabeth 5112'' = ''12 Main St Elizabeth 5112''"
    by (subst c) simp
  with h show ?thesis by (intro conjI) (elim conjE, assumption)+
qed

text \<open>
  The earlier revision with the comma differs on the same fragments: its separator
  is kept in the result.
\<close>

lemma combineAddressComma_example:
  "combineAddressComma ''A'' ''B'' = ''A, B'' \<and> combineAddressComma ''A'' [] = ''A''"
  by (simp add: combineAddressComma_def trim_def isWhiteSpace_def)

section \<open>The scan of the header row\<close>

lemma slotOf_locateCell:
  "name \<in> set recognizedNames \<Longrightarrow>
   slotOf (locateCell m k c) name = (if c = name then k else slotOf m name)"
  by (auto simp: recognizedNames_def slotOf_def locateCell_def)

lemma slotOf_locateLoop_absent:
  "name \<in> set recognizedNames \<Longrightarrow> name \<notin> set cells \<Longrightarrow>
   slotOf (locateLoop m k cells) name = slotOf m name"
  by (induction cells arbitrary: m k) (auto simp: slotOf_locateCell)

lemma slotOf_locateLoop_last:
  "name \<in> set recognizedNames \<Longrightarrow> i < length cells \<Longrightarrow> cells ! i = name \<Longrightarrow>
   (\<forall>j. i < j \<and> j < length cells \<longrightarrow> cells ! j \<noteq> name) \<Longrightarrow>
   slotOf (locateLoop m k cells) name = int (k + i)"
proof (induction cells arbitrary: m k i)
  case Nil
  then show ?case by simp
next
  case (Cons c cs)
  show ?case
  proof (cases i)
    case 0
    have "name \<notin> set cs"
    proof
      assume "name \<in> set cs"
      then obtain j where "j < length cs" "cs ! j = name" by (auto simp: in_set_conv_nth)
      with Cons.prems(4) [rule_format, of "Suc j"] 0 show False by simp
    qed
    with Cons.prems 0 show ?thesis
      by (simp add: slotOf_locateLoop_absent slotOf_locateCell)
  next
    case (Suc i')
    have later: "\<forall>j. i' < j \<and> j < length cs \<longrightarrow> cs ! j \<noteq> name"
    proof (intro allI impI)
      fix j assume "i' < j \<and> j < length cs"
      with Cons.prems(4) [rule_format, of "Suc j"] Suc show "cs ! j \<noteq> name" by simp
    qed
    from Cons.prems Suc have "i' < length cs" "cs ! i' = name" by simp_all
    from Cons.IH [OF Cons.prems(1) this later, of "locateCell m (int k) c" "Suc k"] Suc
    show ?thesis by simp
  qed
qed

lemma slotOf_locateLoop_cases:
  "name \<in> set recognizedNames \<Longrightarrow>
   slotOf (locateLoop m k cells) name = slotOf m name \<or>
   (\<exists>i<length cells. cells ! i = name \<and> slotOf (locateLoop m k cells) name = int (k + i))"
proof (induction cells arbitrary: m k)
  case Nil
  then show ?case by simp
next
  case (Cons c cs)
  from Cons.IH [OF Cons.prems, of "locateCell m (int k) c" "Suc k"]
  show ?case
  proof
    assume a: "slotOf (locateLoop (locateCell m (int k) c) (Suc k) cs) name = slotOf (locateCell m (int k) c) name"
    show ?thesis
    proof (cases "c = name")
      case True
      with a Cons.prems have "slotOf (locateLoop m k (c # cs)) name = int (k + 0)"
        by (simp add: slotOf_locateCell)
      moreover from True have "(c # cs) ! 0 = name" by simp
      ultimately show ?thesis by blast
    next
      case False
      with a Cons.prems show ?thesis by (simp add: slotOf_locateCell)
    qed
  next
    assume "\<exists>i<length cs. cs ! i = name \<and> slotOf (locateLoop (locateCell m (int k) c) (Suc k) cs) name = int (Suc k + i)"
    then obtain i where "i < length cs" "cs ! i = name"
      "slotOf (locateLoop (locateCell m (int k) c) (Suc k) cs) name = int (Suc k + i)" by blast
    then have "Suc i < length (c # cs) \<and> (c # cs) ! Suc i = name \<and>
      slotOf (locateLoop m k (c # cs)) name = int (k + Suc i)" by simp
    then show ?thesis by blast
  qed
qed

lemma slotOf_initialMapping: "name \<in> set recognizedNames \<Longrightarrow> slotOf initialMapping name = -1"
  by (auto simp: slotOf_def initialMapping_def)

lemma slotHolds_locateColumns:
  "name \<in> set recognizedNames \<Longrightarrow> slotHolds header name (slotOf (locateColumns header) name)"
  unfolding slotHolds_def locateColumns_def
  using slotOf_locateLoop_absent [of name header initialMapping 0]
    slotOf_locateLoop_last [of name _ header initialMapping 0]
  by (simp add: slotOf_initialMapping)

lemma slot_present:
  assumes "name \<in> set recognizedNames" "slotOf (locateColumns header) name \<noteq> -1"
  shows "0 \<le> slotOf (locateColumns header) name \<and> nat (slotOf (locateColumns header) name) < length header
    \<and> header ! nat (slotOf (locateColumns header) name) = name"
  using slotOf_locateLoop_cases [OF assms(1), of initialMapping 0 header] assms
  by (auto simp: locateColumns_def slotOf_initialMapping)


lemma slotInHeader_locateColumns:
  "name \<in> set recognizedNames \<Longrightarrow> slotInHeader header name (slotOf (locateColumns header) name)"
  unfolding slotInHeader_def using slot_present [of name header] by auto

lemma slots_absent_or_in_header:
  "name \<in> set recognizedNames \<Longrightarrow>
   slotOf (locateColumns header) name = -1 \<or>
   (0 \<le> slotOf (locateColumns header) name \<and> slotOf (locateColumns header) name < int (length header))"
  using slot_present [of name header] by auto

lemma cellsPresent_locateColumns:
  assumes "length row = length header" "applicationNumberColumnIndex (locateColumns header) \<noteq> -1"
  shows "cellsPresent (locateColumns header) row"
proof -
  let ?m = "locateColumns header"
  have a: "0 \<le> applicationNumberColumnIndex ?m \<and> applicationNumberColumnIndex ?m < int (length header)"
    using slots_absent_or_in_header [of "''ApplicationNumber''" header] assms(2)
    by (simp add: recognizedNames_def slotOf_def)
  have b: "addressColumnIndex1 ?m < int (length header)"
    using slots_absent_or_in_header [of "''PropertyAddress''" header]
    by (auto simp: recognizedNames_def slotOf_def)
  have c: "addressColumnIndex2 ?m < int (length header)"
    using slots_absent_or_in_header [of "''PropertySuburbPostCode''" header]
    by (auto simp: recognizedNames_def slotOf_def)
  have d: "descriptionColumnIndex ?m < int (length header)"
    using slots_absent_or_in_header [of "''ApplicationDesc''" header]
    by (auto simp: recognizedNames_def slotOf_def)
  have e: "receivedDateColumnIndex ?m < int (length header)"
    using slots_absent_or_in_header [of "''LodgementDate''" header]
    by (auto simp: recognizedNames_def slotOf_def)
  from a b c d e assms(1) show ?thesis by (simp add: cellsPresent_def)
qed

text \<open>
  Claim C6. For every header row each of the five slots holds \<open>-1\<close> when no cell of
  the row is the slot's name, and otherwise the index of the last cell that is the
  name; the comparison is equality of strings, so a name in another case or with a
  space before or behind it is not recognized. The locator is a total function into
  the mapping: it has no error to return.
\<close>

theorem locateColumns_slots:
  "slotHolds header ''ApplicationNumber'' (applicationNumberColumnIndex (locateColumns header))
   \<and> slotHolds header ''LodgementDate'' (receivedDateColumnIndex (locateColumns header))
   \<and> slotHolds header ''ApplicationDesc'' (descriptionColumnIndex (locateColumns header))
   \<and> slotHolds header ''PropertyAddress'' (addressColumnIndex1 (locateColumns header))
   \<and> slotHolds header ''PropertySuburbPostCode'' (addressColumnIndex2 (locateColumns header))
   \<and> locateColumns [''applicationnumber'', '' ApplicationNumber'', ''ApplicationNumber ''] = initialMapping
   \<and> locateColumns [] = initialMapping"
proof -
  have 1: "slotHolds header ''ApplicationNumber'' (applicationNumberColumnIndex (locateColumns header))"
    using slotHolds_locateColumns [of "''ApplicationNumber''" header]
    by (simp add: recognizedNames_def slotOf_def)
  have 2: "slotHolds header ''LodgementDate'' (receivedDateColumnIndex (locateColumns header))"
    using slotHolds_locateColumns [of "''LodgementDate''" header]
    by (simp add: recognizedNames_def slotOf_def)
  have 3: "slotHolds header ''ApplicationDesc'' (descriptionColumnIndex (locateColumns header))"
    using slotHolds_locateColumns [of "''ApplicationDesc''" header]
    by (simp add: recognizedNames_def slotOf_def)
  have 4: "slotHolds header ''PropertyAddress'' (addressColumnIndex1 (locateColumns header))"
    using slotHolds_locateColumns [of "''PropertyAddress''" header]
    by (simp add: recognizedNames_def slotOf_def)
  have 5: "slotHolds header ''PropertySuburbPostCode'' (addressColumnIndex2 (locateColumns header))"
    using slotHolds_locateColumns [of "''PropertySuburbPostCode''" header]
    by (simp add: recognizedNames_def slotOf_def)
  have 6: "locateColumns [''applicationnumber'', '' ApplicationNumber'', ''ApplicationNumber ''] = initialMapping"
    by (simp add: locateColumns_def locateCell_def)
  have 7: "locateColumns [] = initialMapping"
    by (simp add: locateColumns_def)
  show ?thesis by (intro conjI; (rule 1 2 3 4 5 6 7))
qed

theorem locateColumns_slots_witness:
  "''LodgementDate'' \<notin> set [''ApplicationNumber'', ''PropertyAddress'', ''ApplicationNumber'']
   \<and> receivedDateColumnIndex (locateColumns [''ApplicationNumber'', ''PropertyAddress'', ''ApplicationNumber'']) = -1
   \<and> [''ApplicationNumber'', ''PropertyAddress'', ''ApplicationNumber''] ! 2 = ''ApplicationNumber''
   \<and> applicationNumberColumnIndex (locateColumns [''ApplicationNumber'', ''PropertyAddress'', ''ApplicationNumber'']) = 2"
proof -
  let ?h = "[''ApplicationNumber'', ''PropertyAddress'', ''ApplicationNumber'']"
  note t = locateColumns_slots [of ?h]
  have absent: "''LodgementDate'' \<notin> set ?h" by simp
  have last: "?h ! 2 = ''ApplicationNumber''" by simp
  have later: "\<forall>j. 2 < j \<and> j < length ?h \<longrightarrow> ?h ! j \<noteq> ''ApplicationNumber''" by simp
  from t have "slotHolds ?h ''LodgementDate'' (receivedDateColumnIndex (locateColumns ?h))"
    by (elim conjE)
  with absent have a: "receivedDateColumnIndex (locateColumns ?h) = -1"
    unfolding slotHolds_def by blast
  from t have "slotHolds ?h ''ApplicationNumber'' (applicationNumberColumnIndex (locateColumns ?h))"
    by (elim conjE)
  then have "\<forall>i<length ?h. ?h ! i = ''ApplicationNumber'' \<and> (\<forall>j. i < j \<and> j < length ?h \<longrightarrow> ?h ! j \<noteq> ''ApplicationNumber'')
        \<longrightarrow> applicationNumberColumnIndex (locateColumns ?h) = int i"
    unfolding slotHolds_def by (elim conjE)
  from this [rule_format, of 2] last later
  have b: "applicationNumberColumnIndex (locateColumns ?h) = 2" by simp
  show ?thesis by (intro conjI; (rule absent a last b))
qed

section \<open>Rows that have a cell at every slot\<close>

lemma cellTrim_present: "0 \<le> i \<Longrightarrow> i < int (length row) \<Longrightarrow> cellTrim row i = Inr (trim (row ! nat i))"
  by (simp add: cellTrim_def)

lemma optional_cell:
  "i < int (length row) \<Longrightarrow> (if i < 0 then Inr [] else cellTrim row i) = Inr (cellText row i)"
  by (auto simp: cellTrim_def cellText_def)

lemma cellTrim_slot:
  assumes "name \<in> set recognizedNames" "length row = length header"
    "slotOf (locateColumns header) name \<noteq> -1"
  shows "cellTrim row (slotOf (locateColumns header) name)
    = Inr (trim (row ! nat (slotOf (locateColumns header) name)))"
  using slots_absent_or_in_header [OF assms(1), of header] assms(2,3)
  by (simp add: cellTrim_present)

lemma extractRecord_cellsPresent:
  assumes "cellsPresent m row"
  shows "extractRecord m url today row =
     (if trim (row ! nat (applicationNumberColumnIndex m)) \<noteq> []
         \<and> combineAddress (cellText row (addressColumnIndex1 m)) (cellText row (addressColumnIndex2 m)) \<noteq> []
      then Inr (Some \<lparr>applicationNumber = trim (row ! nat (applicationNumberColumnIndex m)),
             address = combineAddress (cellText row (addressColumnIndex1 m)) (cellText row (addressColumnIndex2 m)),
             description = (if cellText row (descriptionColumnIndex m) = [] then ''No description provided''
                            else cellText row (descriptionColumnIndex m)),
             informationUrl = url,
             commentUrl = CommentUrl,
             scrapeDate = today,
             receivedDate = normalizeDate (if receivedDateColumnIndex m < 0 then None
                                           else Some (trim (row ! nat (receivedDateColumnIndex m))))\<rparr>)
      else Inr None)"
proof -
  from assms have a: "cellTrim row (applicationNumberColumnIndex m) = Inr (trim (row ! nat (applicationNumberColumnIndex m)))"
    by (simp add: cellsPresent_def cellTrim_present)
  from assms have b: "(if addressColumnIndex1 m < 0 then Inr [] else cellTrim row (addressColumnIndex1 m)) = Inr (cellText row (addressColumnIndex1 m))"
    by (simp only: cellsPresent_def optional_cell)
  from assms have c: "(if addressColumnIndex2 m < 0 then Inr [] else cellTrim row (addressColumnIndex2 m)) = Inr (cellText row (addressColumnIndex2 m))"
    by (simp only: cellsPresent_def optional_cell)
  from assms have d: "(if descriptionColumnIndex m < 0 then Inr [] else cellTrim row (descriptionColumnIndex m)) = Inr (cellText row (descriptionColumnIndex m))"
    by (simp only: cellsPresent_def optional_cell)
  from assms have e: "(if receivedDateColumnIndex m < 0 then Inr None
              else andThen (cellTrim row (receivedDateColumnIndex m)) (\<lambda>c. Inr (Some c)))
       = Inr (if receivedDateColumnIndex m < 0 then None else Some (trim (row ! nat (receivedDateColumnIndex m))))"
    by (auto simp: cellsPresent_def cellTrim_def andThen_def)
  show ?thesis
    unfolding extractRecord_def a b c d e by (simp add: andThen_def Let_def)
qed

text \<open>
  Claim C10. For every header row, a slot that is not \<open>-1\<close> holds an index \<open>i\<close> with
  \<open>0 \<le> i < length header\<close>, and the header cell at \<open>i\<close> is the name of the slot;
  hence for a row as long as the header every read \<open>row[i].trim()\<close> through a slot
  that is present yields the trimmed cell of the row, and, once the slot of the
  application number is present, the row has a cell wherever the extractor reads
  one and the extractor raises no error.
\<close>

theorem locateColumns_in_bounds:
  "slotInHeader header ''ApplicationNumber'' (applicationNumberColumnIndex (locateColumns header))
   \<and> slotInHeader header ''LodgementDate'' (receivedDateColumnIndex (locateColumns header))
   \<and> slotInHeader header ''ApplicationDesc'' (descriptionColumnIndex (locateColumns header))
   \<and> slotInHeader header ''PropertyAddress'' (addressColumnIndex1 (locateColumns header))
   \<and> slotInHeader header ''PropertySuburbPostCode'' (addressColumnIndex2 (locateColumns header))
   \<and> (length row = length header \<longrightarrow>
        (\<forall>v \<in> set [applicationNumberColumnIndex (locateColumns header),
                     receivedDateColumnIndex (locateColumns header),
                     descriptionColumnIndex (locateColumns header),
                     addressColumnIndex1 (locateColumns header),
                     addressColumnIndex2 (locateColumns header)].
           v \<noteq> -1 \<longrightarrow> cellTrim row v = Inr (trim (row ! nat v))))
   \<and> (length row = length header \<and> applicationNumberColumnIndex (locateColumns header) \<noteq> -1 \<longrightarrow>
        cellsPresent (locateColumns header) row
        \<and> (\<exists>r. extractRecord (locateColumns header) url today row = Inr r))"
proof -
  have 1: "slotInHeader header ''ApplicationNumber'' (applicationNumberColumnIndex (locateColumns header))"
    using slotInHeader_locateColumns [of "''ApplicationNumber''" header]
    by (simp add: recognizedNames_def slotOf_def)
  have 2: "slotInHeader header ''LodgementDate'' (receivedDateColumnIndex (locateColumns header))"
    using slotInHeader_locateColumns [of "''LodgementDate''" header]
    by (simp add: recognizedNames_def slotOf_def)
  have 3: "slotInHeader header ''ApplicationDesc'' (descriptionColumnIndex (locateColumns header))"
    using slotInHeader_locateColumns [of "''ApplicationDesc''" header]
    by (simp add: recognizedNames_def slotOf_def)
  have 4: "slotInHeader header ''PropertyAddress'' (addressColumnIndex1 (locateColumns header))"
    using slotInHeader_locateColumns [of "''PropertyAddress''" header]
    by (simp add: recognizedNames_def slotOf_def)
  have 5: "slotInHeader header ''PropertySuburbPostCode'' (addressColumnIndex2 (locateColumns header))"
    using slotInHeader_locateColumns [of "''PropertySuburbPostCode''" header]
    by (simp add: recognizedNames_def slotOf_def)
  have 6: "length row = length header \<and> applicationNumberColumnIndex (locateColumns header) \<noteq> -1 \<longrightarrow>
        cellsPresent (locateColumns header) row
        \<and> (\<exists>r. extractRecord (locateColumns header) url today row = Inr r)"
  proof (intro impI, elim conjE)
    assume "length row = length header" "applicationNumberColumnIndex (locateColumns header) \<noteq> -1"
    then have p: "cellsPresent (locateColumns header) row" by (rule cellsPresent_locateColumns)
    have "\<exists>r. extractRecord (locateColumns header) url today row = Inr r"
      unfolding extractRecord_cellsPresent [OF p] by (rule if_split [THEN iffD2]) blast
    with p show "cellsPresent (locateColumns header) row
        \<and> (\<exists>r. extractRecord (locateColumns header) url today row = Inr r)" by (rule conjI)
  qed
  have 7: "length row = length header \<longrightarrow>
        (\<forall>v \<in> set [applicationNumberColumnIndex (locateColumns header),
                     receivedDateColumnIndex (locateColumns header),
                     descriptionColumnIndex (locateColumns header),
                     addressColumnIndex1 (locateColumns header),
                     addressColumnIndex2 (locateColumns header)].
           v \<noteq> -1 \<longrightarrow> cellTrim row v = Inr (trim (row ! nat v)))"
    using cellTrim_slot [of "''ApplicationNumber''" row header]
      cellTrim_slot [of "''LodgementDate''" row header]
      cellTrim_slot [of "''ApplicationDesc''" row header]
      cellTrim_slot [of "''PropertyAddress''" row header]
      cellTrim_slot [of "''PropertySuburbPostCode''" row header]
    by (simp add: recognizedNames_def slotOf_def)
  show ?thesis by (intro conjI; (rule 1 2 3 4 5 6 7))
qed

theorem locateColumns_in_bounds_witness:
  "length [''DA1'', ''X'', ''5 High St''] = length [''ApplicationNumber'', ''Other'', ''PropertyAddress'']
   \<and> applicationNumberColumnIndex (locateColumns [''ApplicationNumber'', ''Other'', ''PropertyAddress'']) \<noteq> -1
   \<and> addressColumnIndex1 (locateColumns [''ApplicationNumber'', ''Other'', ''PropertyAddress'']) \<noteq> -1
   \<and> addressColumnIndex1 (locateColumns [''ApplicationNumber'', ''Other'', ''PropertyAddress'']) < 3
   \<and> cellsPresent (locateColumns [''ApplicationNumber'', ''Other'', ''PropertyAddress''])
        [''DA1'', ''X'', ''5 High St'']
   \<and> (\<exists>r. extractRecord (locateColumns [''ApplicationNumber'', ''Other'', ''PropertyAddress''])
          ''https://data.sa.gov.au/a.csv'' ''2018-08-05'' [''DA1'', ''X'', ''5 High St''] = Inr r)"
proof -
  let ?h = "[''ApplicationNumber'', ''Other'', ''PropertyAddress'']"
  let ?r = "[''DA1'', ''X'', ''5 High St'']"
  note t = locateColumns_in_bounds [of ?h ?r "''https://data.sa.gov.au/a.csv''" "''2018-08-05''"]
  have len: "length ?r = length ?h" by simp
  have app: "applicationNumberColumnIndex (locateColumns ?h) \<noteq> -1"
    by (simp add: locateColumns_def locateCell_def initialMapping_def)
  have a1: "addressColumnIndex1 (locateColumns ?h) \<noteq> -1"
    by (simp add: locateColumns_def locateCell_def initialMapping_def)
  from t have "slotInHeader ?h ''PropertyAddress'' (addressColumnIndex1 (locateColumns ?h))"
    by (elim conjE)
  with a1 have b: "addressColumnIndex1 (locateColumns ?h) < 3"
    unfolding slotInHeader_def by simp
  from t have "length ?r = length ?h \<and> applicationNumberColumnIndex (locateColumns ?h) \<noteq> -1 \<longrightarrow>
        cellsPresent (locateColumns ?h) ?r
        \<and> (\<exists>r. extractRecord (locateColumns ?h) ''https://data.sa.gov.au/a.csv'' ''2018-08-05'' ?r = Inr r)"
    by (elim conjE)
  with len app have c: "cellsPresent (locateColumns ?h) ?r
        \<and> (\<exists>r. extractRecord (locateColumns ?h) ''https://data.sa.gov.au/a.csv'' ''2018-08-05'' ?r = Inr r)"
    by blast
  show ?thesis by (intro conjI; (rule len app a1 b c [THEN conjunct1] c [THEN conjunct2]))
qed

section \<open>Rows that are emitted and rows that are dropped\<close>

text \<open>
  Claim C3. For every mapping and every row that has a cell at the slot of the
  application number and at every other slot that is present, the extractor emits a
  record exactly when the trimmed application number and the combined address are
  both non-empty, and the record carries these two values; when either is empty the
  extractor returns no record and no error, and the row loop passes the row without
  any change to the table or the console.
\<close>

theorem extractRecord_emits_iff:
  "cellsPresent m row \<Longrightarrow>
   (cellText row (applicationNumberColumnIndex m) \<noteq> []
      \<and> combineAddress (cellText row (addressColumnIndex1 m)) (cellText row (addressColumnIndex2 m)) \<noteq> []
    \<longrightarrow> (\<exists>da. extractRecord m url today row = Inr (Some da)
            \<and> applicationNumber da = cellText row (applicationNumberColumnIndex m)
            \<and> address da = combineAddress (cellText row (addressColumnIndex1 m)) (cellText row (addressColumnIndex2 m))))
   \<and> (cellText row (applicationNumberColumnIndex m) = []
      \<or> combineAddress (cellText row (addressColumnIndex1 m)) (cellText row (addressColumnIndex2 m)) = []
    \<longrightarrow> extractRecord m url today row = Inr None
        \<and> processRows m url today [row] w = (Inr (), w)
        \<and> processRows m url today (row # rows) w = processRows m url today rows w)"
proof -
  assume p: "cellsPresent m row"
  then have app: "cellText row (applicationNumberColumnIndex m) = trim (row ! nat (applicationNumberColumnIndex m))"
    by (simp add: cellsPresent_def cellText_def)
  note e = extractRecord_cellsPresent [OF p, of url today, folded app]
  show ?thesis
  proof (intro conjI impI)
    assume "cellText row (applicationNumberColumnIndex m) \<noteq> []
      \<and> combineAddress (cellText row (addressColumnIndex1 m)) (cellText row (addressColumnIndex2 m)) \<noteq> []"
    then show "\<exists>da. extractRecord m url today row = Inr (Some da)
            \<and> applicationNumber da = cellText row (applicationNumberColumnIndex m)
            \<and> address da = combineAddress (cellText row (addressColumnIndex1 m)) (cellText row (addressColumnIndex2 m))"
      unfolding e by simp
  next
    assume a: "cellText row (applicationNumberColumnIndex m) = []
      \<or> combineAddress (cellText row (addressColumnIndex1 m)) (cellText row (addressColumnIndex2 m)) = []"
    then show n: "extractRecord m url today row = Inr None"
      unfolding e by auto
    then show "processRows m url today [row] w = (Inr (), w)" by simp
    from n show "processRows m url today (row # rows) w = processRows m url today rows w" by simp
  qed
qed

theorem extractRecord_emits_iff_witness:
  "cellsPresent
     \<lparr>applicationNumberColumnIndex = 0, receivedDateColumnIndex = -1, descriptionColumnIndex = -1,
      addressColumnIndex1 = 1, addressColumnIndex2 = -1\<rparr> [''  '', ''5 High St'']
   \<and> cellText [''  '', ''5 High St''] 0 = []
   \<and> extractRecord
        \<lparr>applicationNumberColumnIndex = 0, receivedDateColumnIndex = -1, descriptionColumnIndex = -1,
         addressColumnIndex1 = 1, addressColumnIndex2 = -1\<rparr>
        ''https://data.sa.gov.au/a.csv'' ''2018-08-05'' [''  '', ''5 High St''] = Inr None
   \<and> processRows
        \<lparr>applicationNumberColumnIndex = 0, receivedDateColumnIndex = -1, descriptionColumnIndex = -1,
         addressColumnIndex1 = 1, addressColumnIndex2 = -1\<rparr>
        ''https://data.sa.gov.au/a.csv'' ''2018-08-05'' [[''  '', ''5 High St'']]
        \<lparr>table = [], faults = [], console = []\<rparr>
       = (Inr (), \<lparr>table = [], faults = [], console = []\<rparr>)
   \<and> cellsPresent
     \<lparr>applicationNumberColumnIndex = 0, receivedDateColumnIndex = -1, descriptionColumnIndex = -1,
      addressColumnIndex1 = 1, addressColumnIndex2 = -1\<rparr> [''DA1'', ''5 High St'']
   \<and> cellText [''DA1'', ''5 High St''] 0 = ''DA1''
   \<and> combineAddress (cellText [''DA1'', ''5 High St''] 1) (cellText [''DA1'', ''5 High St''] (-1)) = ''5 High St''
   \<and> (\<exists>da. extractRecord
        \<lparr>applicationNumberColumnIndex = 0, receivedDateColumnIndex = -1, descriptionColumnIndex = -1,
         addressColumnIndex1 = 1, addressColumnIndex2 = -1\<rparr>
        ''https://data.sa.gov.au/a.csv'' ''2018-08-05'' [''DA1'', ''5 High St''] = Inr (Some da)
        \<and> applicationNumber da = ''DA1'' \<and> address da = ''5 High St'')"
proof -
  let ?m = "\<lparr>applicationNumberColumnIndex = 0, receivedDateColumnIndex = -1, descriptionColumnIndex = -1,
      addressColumnIndex1 = 1, addressColumnIndex2 = -1\<rparr>"
  let ?u = "''https://data.sa.gov.au/a.csv''"
  let ?t = "''2018-08-05''"
  let ?w = "\<lparr>table = [], faults = [], console = []\<rparr>"
  have p1: "cellsPresent ?m [''  '', ''5 High St'']" by (simp add: cellsPresent_def)
  have e1: "cellText [''  '', ''5 High St''] 0 = []" by (simp add: cellText_def trim_def isWhiteSpace_def)
  have p2: "cellsPresent ?m [''DA1'', ''5 High St'']" by (simp add: cellsPresent_def)
  have e2: "cellText [''DA1'', ''5 High St''] 0 = ''DA1''" by (simp add: cellText_def trim_def isWhiteSpace_def)
  have a2: "combineAddress (cellText [''DA1'', ''5 High St''] 1) (cellText [''DA1'', ''5 High St''] (-1)) = ''5 High St''"
    by (simp add: cellText_def trim_def isWhiteSpace_def combineAddress_def)
  have h1: "cellText [''  '', ''5 High St''] (applicationNumberColumnIndex ?m) = []
      \<or> combineAddress (cellText [''  '', ''5 High St''] (addressColumnIndex1 ?m))
           (cellText [''  '', ''5 High St''] (addressColumnIndex2 ?m)) = []"
    using e1 by simp
  note t1 = extractRecord_emits_iff [OF p1, of ?u ?t ?w "[]", THEN conjunct2, THEN mp, OF h1]
  have d: "extractRecord ?m ?u ?t [''  '', ''5 High St''] = Inr None
      \<and> processRows ?m ?u ?t [[''  '', ''5 High St'']] ?w = (Inr (), ?w)"
    using t1 by blast
  have h2: "cellText [''DA1'', ''5 High St''] (applicationNumberColumnIndex ?m) \<noteq> []
      \<and> combineAddress (cellText [''DA1'', ''5 High St''] (addressColumnIndex1 ?m))
           (cellText [''DA1'', ''5 High St''] (addressColumnIndex2 ?m)) \<noteq> []"
    using e2 a2 by simp
  note t2 = extractRecord_emits_iff [OF p2, of ?u ?t ?w "[]", THEN conjunct1, THEN mp, OF h2]
  have k: "\<exists>da. extractRecord ?m ?u ?t [''DA1'', ''5 High St''] = Inr (Some da)
        \<and> applicationNumber da = ''DA1'' \<and> address da = ''5 High St''"
    using t2 e2 a2 by simp
  show ?thesis by (intro conjI; (rule p1 e1 d [THEN conjunct1] d [THEN conjunct2] p2 e2 a2 k))
qed

text \<open>
  Claim C4. For every emitted record the description is \<open>No description provided\<close>
  when the trimmed description cell is empty or the mapping has no description
  column, and the trimmed cell otherwise; so, unless the cell itself spells the
  sentinel, the description is the sentinel exactly when the trimmed cell is empty.
\<close>

theorem extractRecord_description:
  "extractRecord m url today row = Inr (Some da) \<Longrightarrow>
   (descriptionColumnIndex m < 0 \<or> cellText row (descriptionColumnIndex m) = []
      \<longrightarrow> description da = ''No description provided'')
   \<and> (0 \<le> descriptionColumnIndex m \<and> cellText row (descriptionColumnIndex m) \<noteq> []
      \<longrightarrow> description da = cellText row (descriptionColumnIndex m))
   \<and> (cellText row (descriptionColumnIndex m) \<noteq> ''No description provided''
      \<longrightarrow> (description da = ''No description provided'' \<longleftrightarrow> cellText row (descriptionColumnIndex m) = []))"
proof -
  assume a: "extractRecord m url today row = Inr (Some da)"
  have "description da = (if cellText row (descriptionColumnIndex m) = [] then ''No description provided''
                          else cellText row (descriptionColumnIndex m))"
    using a unfolding extractRecord_def andThen_def cellTrim_def cellText_def Let_def
    by (auto split: if_splits sum.splits)
  moreover have "descriptionColumnIndex m < 0 \<longrightarrow> cellText row (descriptionColumnIndex m) = []"
    by (simp add: cellText_def)
  ultimately show ?thesis by auto
qed

theorem extractRecord_description_witness:
  "extractRecord
     \<lparr>applicationNumberColumnIndex = 0, receivedDateColumnIndex = -1, descriptionColumnIndex = 2,
      addressColumnIndex1 = 1, addressColumnIndex2 = -1\<rparr>
     ''https://data.sa.gov.au/a.csv'' ''2018-08-05'' [''DA1'', ''5 High St'', ''  '']
   = Inr (Some \<lparr>applicationNumber = ''DA1'', address = ''5 High St'',
        description = ''No description provided'', informationUrl = ''https://data.sa.gov.au/a.csv'',
        commentUrl = CommentUrl, scrapeDate = ''2018-08-05'', receivedDate = []\<rparr>)
   \<and> cellText [''DA1'', ''5 High St'', ''  ''] 2 = []
   \<and> extractRecord
     \<lparr>applicationNumberColumnIndex = 0, receivedDateColumnIndex = -1, descriptionColumnIndex = 2,
      addressColumnIndex1 = 1, addressColumnIndex2 = -1\<rparr>
     ''https://data.sa.gov.au/a.csv'' ''2018-08-05'' [''DA1'', ''5 High St'', '' Carport '']
   = Inr (Some \<lparr>applicationNumber = ''DA1'', address = ''5 High St'',
        description = ''Carport'', informationUrl = ''https://data.sa.gov.au/a.csv'',
        commentUrl = CommentUrl, scrapeDate = ''2018-08-05'', receivedDate = []\<rparr>)
   \<and> cellText [''DA1'', ''5 High St'', '' Carport ''] 2 = ''Carport''
   \<and> description \<lparr>applicationNumber = ''DA1'', address = ''5 High St'',
        description = ''No description provided'', informationUrl = ''https://data.sa.gov.au/a.csv'',
        commentUrl = CommentUrl, scrapeDate = ''2018-08-05'', receivedDate = []\<rparr> = ''No description provided''
   \<and> description \<lparr>applicationNumber = ''DA1'', address = ''5 High St'',
        description = ''Carport'', informationUrl = ''https://data.sa.gov.au/a.csv'',
        commentUrl = CommentUrl, scrapeDate = ''2018-08-05'', receivedDate = []\<rparr> = ''Carport''"
proof -
  let ?m = "\<lparr>applicationNumberColumnIndex = 0, receivedDateColumnIndex = -1, descriptionColumnIndex = 2,
      addressColumnIndex1 = 1, addressColumnIndex2 = -1\<rparr>"
  let ?u = "''https://data.sa.gov.au/a.csv''"
  let ?t = "''2018-08-05''"
  have x1: "extractRecord ?m ?u ?t [''DA1'', ''5 High St'', ''  '']
   = Inr (Some \<lparr>applicationNumber = ''DA1'', address = ''5 High St'',
        description = ''No description provided'', informationUrl = ?u,
        commentUrl = CommentUrl, scrapeDate = ?t, receivedDate = []\<rparr>)"
    by (simp add: extractRecord_def andThen_def cellTrim_def trim_def isWhiteSpace_def
        combineAddress_def normalizeDate_def)
  have c1: "cellText [''DA1'', ''5 High St'', ''  ''] 2 = []"
    by (simp add: cellText_def trim_def isWhiteSpace_def)
  have x2: "extractRecord ?m ?u ?t [''DA1'', ''5 High St'', '' Carport '']
   = Inr (Some \<lparr>applicationNumber = ''DA1'', address = ''5 High St'',
        description = ''Carport'', informationUrl = ?u,
        commentUrl = CommentUrl, scrapeDate = ?t, receivedDate = []\<rparr>)"
    by (simp add: extractRecord_def andThen_def cellTrim_def trim_def isWhiteSpace_def
        combineAddress_def normalizeDate_def)
  have c2: "cellText [''DA1'', ''5 High St'', '' Carport ''] 2 = ''Carport''"
    by (simp add: cellText_def trim_def isWhiteSpace_def)
  note t1 = extractRecord_description [OF x1, THEN conjunct1]
  note t2 = extractRecord_description [OF x2, THEN conjunct2, THEN conjunct1]
  from t1 c1 have d1: "description \<lparr>applicationNumber = ''DA1'', address = ''5 High St'',
        description = ''No description provided'', informationUrl = ?u,
        commentUrl = CommentUrl, scrapeDate = ?t, receivedDate = []\<rparr> = ''No description provided''"
    by simp
  from t2 c2 have d2: "description \<lparr>applicationNumber = ''DA1'', address = ''5 High St'',
        description = ''Carport'', informationUrl = ?u,
        commentUrl = CommentUrl, scrapeDate = ?t, receivedDate = []\<rparr> = ''Carport''"
    by simp
  show ?thesis by (intro conjI; (rule x1 c1 x2 c2 d1 d2))
qed

section \<open>The mandatory columns\<close>

lemma slotOf_locateLoop_found:
  "name \<in> set recognizedNames \<Longrightarrow> name \<in> set cells \<Longrightarrow> 0 \<le> slotOf (locateLoop m k cells) name"
proof (induction cells arbitrary: m k)
  case Nil
  then show ?case by simp
next
  case (Cons c cs)
  show ?case
  proof (cases "name \<in> set cs")
    case True
    with Cons show ?thesis by simp
  next
    case False
    with Cons.prems have "c = name" by simp
    with False Cons.prems(1) show ?thesis
      by (simp add: slotOf_locateLoop_absent slotOf_locateCell)
  qed
qed

lemma slot_negative_iff:
  assumes "name \<in> set recognizedNames"
  shows "slotOf (locateColumns header) name < 0 \<longleftrightarrow> name \<notin> set header"
    and "slotOf (locateColumns header) name \<noteq> -1 \<longleftrightarrow> name \<in> set header"
  using slotOf_locateLoop_found [OF assms, of header initialMapping 0]
    slotOf_locateLoop_absent [OF assms, of header initialMapping 0]
  by (auto simp: locateColumns_def slotOf_initialMapping [OF assms])

lemma mandatoryMissing_locateColumns:
  "mandatoryMissing (locateColumns header) \<longleftrightarrow>
     \<not> (''ApplicationNumber'' \<in> set header
        \<and> (''PropertyAddress'' \<in> set header \<or> ''PropertySuburbPostCode'' \<in> set header))"
  using slot_negative_iff(1) [of "''ApplicationNumber''" header]
    slot_negative_iff(1) [of "''PropertyAddress''" header]
    slot_negative_iff(1) [of "''PropertySuburbPostCode''" header]
  by (simp add: mandatoryMissing_def recognizedNames_def slotOf_def)

lemma present_locateColumns:
  "applicationNumberColumnIndex (locateColumns header) \<noteq> -1
     \<and> (addressColumnIndex1 (locateColumns header) \<noteq> -1 \<or> addressColumnIndex2 (locateColumns header) \<noteq> -1)
   \<longleftrightarrow> ''ApplicationNumber'' \<in> set header
        \<and> (''PropertyAddress'' \<in> set header \<or> ''PropertySuburbPostCode'' \<in> set header)"
  using slot_negative_iff(2) [of "''ApplicationNumber''" header]
    slot_negative_iff(2) [of "''PropertyAddress''" header]
    slot_negative_iff(2) [of "''PropertySuburbPostCode''" header]
  by (simp add: recognizedNames_def slotOf_def)

text \<open>
  Claim C7. For every CSV with a header row the pipeline goes on to the rows exactly
  when the slot of the application number and at least one of the two address slots
  are present after the scan, which is when the header has the cell
  \<open>ApplicationNumber\<close> and one of \<open>PropertyAddress\<close> and \<open>PropertySuburbPostCode\<close>;
  otherwise the CSV is skipped with the line \<open>Could not parse\<close> on the console, no
  error is raised and the next source is processed.
\<close>

theorem processCsv_mandatory_columns:
  "processCsv today url (header # dataRows) w =
     (if ''ApplicationNumber'' \<in> set header
         \<and> (''PropertyAddress'' \<in> set header \<or> ''PropertySuburbPostCode'' \<in> set header)
      then processRows (locateColumns header) url today dataRows (consoleLog (Retrieving url) w)
      else (Inr (), consoleLog (CouldNotParse url) (consoleLog (Retrieving url) w)))
   \<and> ((applicationNumberColumnIndex (locateColumns header) \<noteq> -1
         \<and> (addressColumnIndex1 (locateColumns header) \<noteq> -1
            \<or> addressColumnIndex2 (locateColumns header) \<noteq> -1))
       \<longleftrightarrow> (''ApplicationNumber'' \<in> set header
         \<and> (''PropertyAddress'' \<in> set header \<or> ''PropertySuburbPostCode'' \<in> set header)))
   \<and> (\<not> (''ApplicationNumber'' \<in> set header
         \<and> (''PropertyAddress'' \<in> set header \<or> ''PropertySuburbPostCode'' \<in> set header))
       \<longrightarrow> processCsvs today ((url, header # dataRows) # sources) w =
            processCsvs today sources (consoleLog (CouldNotParse url) (consoleLog (Retrieving url) w)))"
proof -
  have 1: "processCsv today url (header # dataRows) w =
     (if ''ApplicationNumber'' \<in> set header
         \<and> (''PropertyAddress'' \<in> set header \<or> ''PropertySuburbPostCode'' \<in> set header)
      then processRows (locateColumns header) url today dataRows (consoleLog (Retrieving url) w)
      else (Inr (), consoleLog (CouldNotParse url) (consoleLog (Retrieving url) w)))"
    by (simp add: processCsv_def Let_def mandatoryMissing_locateColumns)
  have 3: "\<not> (''ApplicationNumber'' \<in> set header
         \<and> (''PropertyAddress'' \<in> set header \<or> ''PropertySuburbPostCode'' \<in> set header))
       \<longrightarrow> processCsvs today ((url, header # dataRows) # sources) w =
            processCsvs today sources (consoleLog (CouldNotParse url) (consoleLog (Retrieving url) w))"
    by (simp add: processCsv_def Let_def mandatoryMissing_locateColumns)
  show ?thesis by (intro conjI; (rule 1 present_locateColumns 3))
qed

theorem processCsv_mandatory_columns_witness:
  "\<not> (''ApplicationNumber'' \<in> set [''Reference'', ''PropertyAddress'']
        \<and> (''PropertyAddress'' \<in> set [''Reference'', ''PropertyAddress'']
           \<or> ''PropertySuburbPostCode'' \<in> set [''Reference'', ''PropertyAddress'']))
   \<and> processCsvs ''2018-08-05''
        [(''https://data.sa.gov.au/a.csv'', [[''Reference'', ''PropertyAddress''], [''DA1'', ''5 High St'']])]
        \<lparr>table = [], faults = [], console = []\<rparr>
       = (Inr (), \<lparr>table = [], faults = [],
            console = [Retrieving ''https://data.sa.gov.au/a.csv'',
                       CouldNotParse ''https://data.sa.gov.au/a.csv'']\<rparr>)"
proof -
  let ?h = "[''Reference'', ''PropertyAddress'']"
  let ?u = "''https://data.sa.gov.au/a.csv''"
  let ?w = "\<lparr>table = [], faults = [], console = []\<rparr>"
  have h: "\<not> (''ApplicationNumber'' \<in> set ?h
        \<and> (''PropertyAddress'' \<in> set ?h \<or> ''PropertySuburbPostCode'' \<in> set ?h))"
    by simp
  note t = processCsv_mandatory_columns [of "''2018-08-05''" ?u ?h "[[''DA1'', ''5 High St'']]" ?w "[]",
      THEN conjunct2, THEN conjunct2, THEN mp, OF h]
  have c: "processCsvs ''2018-08-05'' [(?u, [?h, [''DA1'', ''5 High St'']])] ?w
       = (Inr (), \<lparr>table = [], faults = [], console = [Retrieving ?u, CouldNotParse ?u]\<rparr>)"
    unfolding t by (simp add: consoleLog_def)
  show ?thesis by (intro conjI; (rule h c))
qed

section \<open>Insert if absent\<close>

lemma sqlStatementRun_new:
  assumes "council_reference r \<notin> set (map council_reference (table w))"
    and "faults w = [] \<or> (\<exists>rest. faults w = None # rest)"
  shows "sqlStatementRun r w = (Inr 1, w\<lparr>table := table w @ [r], faults := tl (faults w)\<rparr>)"
  using assms by (auto simp: sqlStatementRun_def insertOrIgnore_def)

lemma sqlStatementRun_present:
  assumes "council_reference r \<in> set (map council_reference (table w))"
    and "faults w = [] \<or> (\<exists>rest. faults w = None # rest)"
  shows "sqlStatementRun r w = (Inr 0, w\<lparr>faults := tl (faults w)\<rparr>)"
  using assms by (auto simp: sqlStatementRun_def insertOrIgnore_def)

lemma sqlStatementRun_fault:
  "faults w = Some e # rest \<Longrightarrow> sqlStatementRun r w = (Inl (StorageError e), w\<lparr>faults := rest\<rparr>)"
  by (simp add: sqlStatementRun_def)

lemma insertRow_fault:
  "faults w = Some e # rest \<Longrightarrow>
   insertRow da w = (Inl (StorageError e), w\<lparr>faults := rest, console := console w @ [ErrorLine (StorageError e)]\<rparr>)"
  by (simp add: insertRow_def sqlStatementRun_fault consoleLog_def)

lemma no_fault_cases:
  "list_all (\<lambda>f. f = None) (take 2 fs) \<Longrightarrow>
   (fs = [] \<or> (\<exists>rest. fs = None # rest)) \<and> (tl fs = [] \<or> (\<exists>rest. tl fs = None # rest))"
  by (cases fs; cases "tl fs") auto

text \<open>
  Claim C8. When two records with the same application number are handed to
  \<open>insertRow\<close> one after the other, the key is not yet in the table and the storage
  layer runs both statements, both calls resolve, the table gains exactly one row,
  and the only row with that key holds the seven fields of the first record, each in
  its column, and \<open>null\<close> in the two notice columns; a description of the second
  record that differs from the first is not stored; the console shows \<open>Inserted\<close>
  for the first record and \<open>Skipped\<close> for the second.
\<close>

theorem insertRow_twice:
  assumes "applicationNumber a = applicationNumber b"
    and "applicationNumber a \<notin> set (map council_reference (table w))"
    and "list_all (\<lambda>f. f = None) (take 2 (faults w))"
  shows "fst (insertRow a w) = Inr ()
   \<and> fst (insertRow b (snd (insertRow a w))) = Inr ()
   \<and> table (snd (insertRow b (snd (insertRow a w)))) =
       table w @
       [\<lparr>council_reference = applicationNumber a, address_col = address a,
          description_col = description a, info_url = informationUrl a,
          comment_url = commentUrl a, date_scraped = scrapeDate a,
          date_received = receivedDate a, on_notice_from = None, on_notice_to = None\<rparr>]
   \<and> filter (\<lambda>r. council_reference r = applicationNumber a) (table (snd (insertRow b (snd (insertRow a w)))))
       = [\<lparr>council_reference = applicationNumber a, address_col = address a,
          description_col = description a, info_url = informationUrl a,
          comment_url = commentUrl a, date_scraped = scrapeDate a,
          date_received = receivedDate a, on_notice_from = None, on_notice_to = None\<rparr>]
   \<and> (description b \<noteq> description a \<longrightarrow>
        description b \<notin> set (map description_col
          (filter (\<lambda>r. council_reference r = applicationNumber a)
             (table (snd (insertRow b (snd (insertRow a w))))))))
   \<and> console (snd (insertRow b (snd (insertRow a w)))) =
       console w @ [Inserted (applicationNumber a) (address a) (description a),
                    Skipped (applicationNumber b) (address b) (description b)]"
proof -
  from no_fault_cases [OF assms(3)]
  have f1: "faults w = [] \<or> (\<exists>rest. faults w = None # rest)"
    and f2: "tl (faults w) = [] \<or> (\<exists>rest. tl (faults w) = None # rest)" by simp_all
  let ?w1 = "w\<lparr>table := table w @ [statementValues a], faults := tl (faults w),
      console := console w @ [Inserted (applicationNumber a) (address a) (description a)]\<rparr>"
  have k: "council_reference (statementValues a) = applicationNumber a"
    by (simp add: statementValues_def)
  have i1: "insertRow a w = (Inr (), ?w1)"
    using sqlStatementRun_new [of "statementValues a" w] assms(2) f1 k
    by (simp add: insertRow_def consoleLog_def)
  have "council_reference (statementValues b) \<in> set (map council_reference (table ?w1))"
    using assms(1) by (simp add: statementValues_def)
  moreover have "faults ?w1 = [] \<or> (\<exists>rest. faults ?w1 = None # rest)" using f2 by simp
  ultimately have "sqlStatementRun (statementValues b) ?w1 = (Inr 0, ?w1\<lparr>faults := tl (faults ?w1)\<rparr>)"
    by (rule sqlStatementRun_present)
  then have i2: "insertRow b ?w1 = (Inr (), ?w1\<lparr>faults := tl (faults ?w1),
      console := console ?w1 @ [Skipped (applicationNumber b) (address b) (description b)]\<rparr>)"
    by (simp add: insertRow_def consoleLog_def)
  have absent: "filter (\<lambda>r. council_reference r = applicationNumber a) (table w) = []"
    using assms(2) by (force simp: filter_empty_conv)
  have v: "statementValues a =
        \<lparr>council_reference = applicationNumber a, address_col = address a,
          description_col = description a, info_url = informationUrl a,
          comment_url = commentUrl a, date_scraped = scrapeDate a,
          date_received = receivedDate a, on_notice_from = None, on_notice_to = None\<rparr>"
    by (simp add: statementValues_def)
  show ?thesis
    unfolding i1 fst_conv snd_conv i2
    by (simp add: absent k) (simp add: v)
qed

theorem insertRow_twice_witness:
  "applicationNumber
     \<lparr>applicationNumber = ''DA1'', address = ''5 High St'', description = ''Carport'',
      informationUrl = ''https://data.sa.gov.au/a.csv'', commentUrl = CommentUrl,
      scrapeDate = ''2018-08-05'', receivedDate = []\<rparr>
   = applicationNumber
     \<lparr>applicationNumber = ''DA1'', address = ''5 High St'', description = ''Carport and verandah'',
      informationUrl = ''https://data.sa.gov.au/a.csv'', commentUrl = CommentUrl,
      scrapeDate = ''2018-08-06'', receivedDate = []\<rparr>
   \<and> ''DA1'' \<notin> set (map council_reference (table \<lparr>table = [], faults = [], console = []\<rparr>))
   \<and> list_all (\<lambda>f. f = None) (take 2 (faults \<lparr>table = [], faults = [], console = []\<rparr>))
   \<and> map description_col
       (table (snd (insertRow
         \<lparr>applicationNumber = ''DA1'', address = ''5 High St'', description = ''Carport and verandah'',
          informationUrl = ''https://data.sa.gov.au/a.csv'', commentUrl = CommentUrl,
          scrapeDate = ''2018-08-06'', receivedDate = []\<rparr>
         (snd (insertRow
           \<lparr>applicationNumber = ''DA1'', address = ''5 High St'', description = ''Carport'',
            informationUrl = ''https://data.sa.gov.au/a.csv'', commentUrl = CommentUrl,
            scrapeDate = ''2018-08-05'', receivedDate = []\<rparr>
           \<lparr>table = [], faults = [], console = []\<rparr>)))))
     = [''Carport'']"
proof -
  let ?a = "\<lparr>applicationNumber = ''DA1'', address = ''5 High St'', description = ''Carport'',
      informationUrl = ''https://data.sa.gov.au/a.csv'', commentUrl = CommentUrl,
      scrapeDate = ''2018-08-05'', receivedDate = []\<rparr>"
  let ?b = "\<lparr>applicationNumber = ''DA1'', address = ''5 High St'', description = ''Carport and verandah'',
      informationUrl = ''https://data.sa.gov.au/a.csv'', commentUrl = CommentUrl,
      scrapeDate = ''2018-08-06'', receivedDate = []\<rparr>"
  let ?w = "\<lparr>table = [], faults = [], console = []\<rparr>"
  have k: "applicationNumber ?a = applicationNumber ?b" by simp
  have n: "applicationNumber ?a \<notin> set (map council_reference (table ?w))" by simp
  have f: "list_all (\<lambda>f. f = None) (take 2 (faults ?w))" by simp
  note t = insertRow_twice [OF k n f, THEN conjunct2, THEN conjunct2, THEN conjunct1]
  have c: "map description_col (table (snd (insertRow ?b (snd (insertRow ?a ?w))))) = [''Carport'']"
    unfolding t by simp
  from n have n': "''DA1'' \<notin> set (map council_reference (table ?w))" by simp
  show ?thesis by (intro conjI; (rule k n' f c))
qed

section \<open>Storage errors\<close>

text \<open>
  Claim C9. When the storage layer fails on the statement of \<open>insertRow\<close>, the call
  is rejected with that error after a single run of the statement, the table is as
  before, the row loop ends with the same rejection without reading the rows behind,
  the loop over the sources ends without reading the sources behind, and the top
  level writes the error to the console instead of \<open>Complete\<close>.
\<close>

theorem storage_error_aborts:
  assumes "faults w = Some e # rest"
  shows "insertRow da w =
       (Inl (StorageError e), w\<lparr>faults := rest, console := console w @ [ErrorLine (StorageError e)]\<rparr>)
   \<and> table (snd (insertRow da w)) = table w
   \<and> (extractRecord m url today row = Inr (Some da) \<longrightarrow>
        processRows m url today (row # rows) w = insertRow da w)
   \<and> (processCsv today url csv w0 = (Inl err, w') \<longrightarrow>
        processCsvs today ((url, csv) # sources) w0 = (Inl err, w')
        \<and> run today ((url, csv) # sources) w0 = consoleLog (ErrorLine err) w')
   \<and> (\<not> mandatoryMissing (locateColumns header)
        \<and> extractRecord (locateColumns header) url today row = Inr (Some da) \<longrightarrow>
        run today ((url, header # row # rows) # sources) w =
          w\<lparr>faults := rest,
            console := console w @ [Retrieving url, ErrorLine (StorageError e), ErrorLine (StorageError e)]\<rparr>)"
proof -
  note i = insertRow_fault [OF assms, of da]
  have 2: "table (snd (insertRow da w)) = table w" unfolding i by simp
  have 3: "extractRecord m url today row = Inr (Some da) \<longrightarrow>
        processRows m url today (row # rows) w = insertRow da w"
    by (simp add: i)
  have 4: "processCsv today url csv w0 = (Inl err, w') \<longrightarrow>
        processCsvs today ((url, csv) # sources) w0 = (Inl err, w')
        \<and> run today ((url, csv) # sources) w0 = consoleLog (ErrorLine err) w'"
    by (simp add: run_def)
  have f: "faults (consoleLog (Retrieving url) w) = Some e # rest"
    using assms by (simp add: consoleLog_def)
  have 5: "\<not> mandatoryMissing (locateColumns header)
        \<and> extractRecord (locateColumns header) url today row = Inr (Some da) \<longrightarrow>
        run today ((url, header # row # rows) # sources) w =
          w\<lparr>faults := rest,
            console := console w @ [Retrieving url, ErrorLine (StorageError e), ErrorLine (StorageError e)]\<rparr>"
    by (simp add: run_def processCsv_def Let_def insertRow_fault [OF f]) (simp add: consoleLog_def)
  show ?thesis by (intro conjI; (rule i 2 3 4 5))
qed

theorem storage_error_aborts_witness:
  "faults \<lparr>table = [], faults = [Some ''SQLITE_FULL''], console = []\<rparr> = Some ''SQLITE_FULL'' # []
   \<and> \<not> mandatoryMissing (locateColumns [''ApplicationNumber'', ''PropertyAddress''])
   \<and> extractRecord (locateColumns [''ApplicationNumber'', ''PropertyAddress''])
        ''https://data.sa.gov.au/a.csv'' ''2018-08-05'' [''DA1'', ''5 High St'']
       = Inr (Some \<lparr>applicationNumber = ''DA1'', address = ''5 High St'',
            description = ''No description provided'', informationUrl = ''https://data.sa.gov.au/a.csv'',
            commentUrl = CommentUrl, scrapeDate = ''2018-08-05'', receivedDate = []\<rparr>)
   \<and> run ''2018-08-05''
        [(''https://data.sa.gov.au/a.csv'',
          [[''ApplicationNumber'', ''PropertyAddress''], [''DA1'', ''5 High St''], [''DA2'', ''7 High St'']]),
         (''https://data.sa.gov.au/b.csv'',
          [[''ApplicationNumber'', ''PropertyAddress''], [''DA3'', ''9 High St'']])]
        \<lparr>table = [], faults = [Some ''SQLITE_FULL''], console = []\<rparr>
       = \<lparr>table = [], faults = [],
          console = [Retrieving ''https://data.sa.gov.au/a.csv'',
                     ErrorLine (StorageError ''SQLITE_FULL''),
                     ErrorLine (StorageError ''SQLITE_FULL'')]\<rparr>"
proof -
  let ?h = "[''ApplicationNumber'', ''PropertyAddress'']"
  let ?u = "''https://data.sa.gov.au/a.csv''"
  let ?w = "\<lparr>table = [], faults = [Some ''SQLITE_FULL''], console = []\<rparr>"
  let ?da = "\<lparr>applicationNumber = ''DA1'', address = ''5 High St'',
            description = ''No description provided'', informationUrl = ?u,
            commentUrl = CommentUrl, scrapeDate = ''2018-08-05'', receivedDate = []\<rparr>"
  have m: "locateColumns ?h = \<lparr>applicationNumberColumnIndex = 0, receivedDateColumnIndex = -1,
      descriptionColumnIndex = -1, addressColumnIndex1 = 1, addressColumnIndex2 = -1\<rparr>"
    by (simp add: locateColumns_def locateCell_def initialMapping_def)
  have f: "faults ?w = Some ''SQLITE_FULL'' # []" by simp
  have g: "\<not> mandatoryMissing (locateColumns ?h)" unfolding m by (simp add: mandatoryMissing_def)
  have x: "extractRecord (locateColumns ?h) ?u ''2018-08-05'' [''DA1'', ''5 High St''] = Inr (Some ?da)"
    unfolding m
    by (simp add: extractRecord_def andThen_def cellTrim_def trim_def isWhiteSpace_def
        combineAddress_def normalizeDate_def)
  note t = storage_error_aborts [where da = ?da and header = ?h and url = ?u
      and today = "''2018-08-05''" and row = "[''DA1'', ''5 High St'']", OF f,
      THEN conjunct2, THEN conjunct2, THEN conjunct2, THEN conjunct2, THEN mp, OF conjI [OF g x]]
  have r: "run ''2018-08-05''
        [(?u, [?h, [''DA1'', ''5 High St''], [''DA2'', ''7 High St'']]),
         (''https://data.sa.gov.au/b.csv'', [?h, [''DA3'', ''9 High St'']])] ?w
       = \<lparr>table = [], faults = [],
          console = [Retrieving ?u, ErrorLine (StorageError ''SQLITE_FULL''),
                     ErrorLine (StorageError ''SQLITE_FULL'')]\<rparr>"
    unfolding t by simp
  show ?thesis by (intro conjI; (rule f g x r))
qed

section \<open>The strict date pattern\<close>

lemma takeDigits_Some:
  "takeDigits n s = Some (a, r) \<Longrightarrow> s = a @ r \<and> length a = n \<and> list_all isDigit a"
  by (auto simp: takeDigits_def split: if_splits)

lemma takeDay_Some:
  "takeDay s = Some (a, r) \<Longrightarrow> s = a @ r \<and> (length a = 1 \<or> length a = 2) \<and> list_all isDigit a"
  by (auto simp: takeDay_def split: option.splits dest: takeDigits_Some)

lemma takeLiteral_Some: "takeLiteral lit s = Some r \<Longrightarrow> s = lit @ r"
  by (metis append_take_drop_id option.distinct(1) option.inject takeLiteral_def)

lemma takeMeridiem_Some:
  "takeMeridiem s = Some (a, r) \<Longrightarrow> s = a @ r \<and> (a = ''AM'' \<or> a = ''PM'')"
proof -
  assume "takeMeridiem s = Some (a, r)"
  then have "a = take 2 s" "r = drop 2 s" "a = ''AM'' \<or> a = ''PM''"
    by (auto simp: takeMeridiem_def split: if_splits)
  then show ?thesis by simp
qed

lemma isDigit_value: "isDigit c \<Longrightarrow> digitValue c < 10 \<and> digitChar (digitValue c) = c"
proof -
  assume "isDigit c"
  then have "48 \<le> (of_char c :: nat) \<and> (of_char c :: nat) < 58"
    by (auto simp: isDigit_def)
  then have "digitValue c < 10" and "48 + digitValue c = of_char c"
    unfolding digitValue_def by arith+
  then show ?thesis by (simp add: digitChar_def)
qed

lemma digits4:
  fixes p q r t :: nat
  assumes b: "p < 10" "q < 10" "r < 10" "t < 10"
  shows "(1000 * p + 100 * q + 10 * r + t) div 1000 mod 10 = p"
    and "(1000 * p + 100 * q + 10 * r + t) div 100 mod 10 = q"
    and "(1000 * p + 100 * q + 10 * r + t) div 10 mod 10 = r"
    and "(1000 * p + 100 * q + 10 * r + t) mod 10 = t"
proof -
  let ?x = "1000 * p + 100 * q + 10 * r + t"
  have "?x div 1000 = p" using b by (intro div_nat_eqI) simp_all
  with b show "?x div 1000 mod 10 = p" by simp
  have "?x div 100 = 10 * p + q" using b by (intro div_nat_eqI) simp_all
  with b show "?x div 100 mod 10 = q" by simp
  have "?x div 10 = 10 * (10 * p + q) + r" using b by (intro div_nat_eqI) simp_all
  then have "?x div 10 mod 10 = (10 * (10 * p + q) + r) mod 10" by (rule arg_cong)
  also have "\<dots> = r mod 10" by (rule mod_mult_self4)
  finally show "?x div 10 mod 10 = r" using b by simp
  have "?x = 10 * (100 * p + 10 * q + r) + t" by simp
  then have "?x mod 10 = (10 * (100 * p + 10 * q + r) + t) mod 10" by (rule arg_cong)
  also have "\<dots> = t mod 10" by (rule mod_mult_self4)
  finally show "?x mod 10 = t" using b by simp
qed

lemma digits2:
  fixes p q :: nat
  assumes b: "p < 10" "q < 10"
  shows "(10 * p + q) div 10 mod 10 = p" and "(10 * p + q) mod 10 = q"
  using b by simp_all

lemma length_two: "length a = 2 \<Longrightarrow> \<exists>x y. a = [x, y]"
  by (cases a; cases "tl a") auto

lemma length_four: "length a = 4 \<Longrightarrow> \<exists>x y z u. a = [x, y, z, u]"
  by (cases a; cases "tl a"; cases "tl (tl a)"; cases "tl (tl (tl a))") auto

lemma zeroFill2_toInt: "length a = 2 \<Longrightarrow> list_all isDigit a \<Longrightarrow> zeroFill2 (toInt a) = a"
proof -
  assume "length a = 2" and d: "list_all isDigit a"
  then obtain x y where a: "a = [x, y]" using length_two by blast
  with d have "digitValue x < 10" "digitValue y < 10"
    "digitChar (digitValue x) = x" "digitChar (digitValue y) = y"
    using isDigit_value by auto
  then show ?thesis unfolding a by (simp add: zeroFill2_def toInt_def)
qed

lemma zeroFill4_toInt: "length a = 4 \<Longrightarrow> list_all isDigit a \<Longrightarrow> zeroFill4 (toInt a) = a"
proof -
  assume "length a = 4" and d: "list_all isDigit a"
  then obtain x y z u where a: "a = [x, y, z, u]" using length_four by blast
  define p q r t where "p = digitValue x" and "q = digitValue y" and "r = digitValue z" and "t = digitValue u"
  with d a have b: "p < 10" "q < 10" "r < 10" "t < 10"
    and c: "digitChar p = x" "digitChar q = y" "digitChar r = z" "digitChar t = u"
    using isDigit_value by auto
  have n: "toInt a = 1000 * p + 100 * q + 10 * r + t"
    unfolding a by (simp add: toInt_def p_def q_def r_def t_def)
  have "zeroFill4 (toInt a) = [digitChar p, digitChar q, digitChar r, digitChar t]"
    unfolding zeroFill4_def n digits4 [OF b] by (rule refl)
  then show ?thesis using c a by simp
qed

lemma strictParse_Some:
  assumes "strictParse s = Some (y, m, d)"
  shows "\<exists>dd mo yy hh mi ss ap.
      s = dd @ ''/'' @ mo @ ''/'' @ yy @ '' '' @ hh @ '':'' @ mi @ '':'' @ ss @ '' '' @ ap
      \<and> (length dd = 1 \<or> length dd = 2) \<and> length mo = 2 \<and> length yy = 4
      \<and> length hh = 2 \<and> length mi = 2 \<and> length ss = 2
      \<and> list_all isDigit (dd @ mo @ yy @ hh @ mi @ ss)
      \<and> (ap = ''AM'' \<or> ap = ''PM'')
      \<and> validDate (toInt yy) (toInt mo) (toInt dd)
      \<and> validTime (toInt hh) (toInt mi) (toInt ss)
      \<and> y = toInt yy \<and> m = toInt mo \<and> d = toInt dd"
proof -
  from assms obtain dd s1 s2 mo s3 s4 yy s5 s6 hh s7 s8 mi s9 s10 ss s11 s12 ap s13 where
    t: "takeDay s = Some (dd, s1)" "takeLiteral ''/'' s1 = Some s2"
      "takeDigits 2 s2 = Some (mo, s3)" "takeLiteral ''/'' s3 = Some s4"
      "takeDigits 4 s4 = Some (yy, s5)" "takeLiteral '' '' s5 = Some s6"
      "takeDigits 2 s6 = Some (hh, s7)" "takeLiteral '':'' s7 = Some s8"
      "takeDigits 2 s8 = Some (mi, s9)" "takeLiteral '':'' s9 = Some s10"
      "takeDigits 2 s10 = Some (ss, s11)" "takeLiteral '' '' s11 = Some s12"
      "takeMeridiem s12 = Some (ap, s13)"
    and i: "(if s13 = [] \<and> validDate (toInt yy) (toInt mo) (toInt dd)
               \<and> validTime (toInt hh) (toInt mi) (toInt ss)
            then Some (toInt yy, toInt mo, toInt dd) else None) = Some (y, m, d)"
    unfolding strictParse_def
    apply (simp only: bind_eq_Some_conv split_paired_Ex prod.case)
    apply (elim exE conjE)
    apply blast
    done
  from i have v: "s13 = []" "validDate (toInt yy) (toInt mo) (toInt dd)"
      "validTime (toInt hh) (toInt mi) (toInt ss)"
      "y = toInt yy" "m = toInt mo" "d = toInt dd"
    by (simp_all split: if_splits)
  note d1 = takeDay_Some [OF t(1)] and l2 = takeLiteral_Some [OF t(2)]
    and d3 = takeDigits_Some [OF t(3)] and l4 = takeLiteral_Some [OF t(4)]
    and d5 = takeDigits_Some [OF t(5)] and l6 = takeLiteral_Some [OF t(6)]
    and d7 = takeDigits_Some [OF t(7)] and l8 = takeLiteral_Some [OF t(8)]
    and d9 = takeDigits_Some [OF t(9)] and l10 = takeLiteral_Some [OF t(10)]
    and d11 = takeDigits_Some [OF t(11)] and l12 = takeLiteral_Some [OF t(12)]
    and m13 = takeMeridiem_Some [OF t(13)]
  have "s = dd @ ''/'' @ mo @ ''/'' @ yy @ '' '' @ hh @ '':'' @ mi @ '':'' @ ss @ '' '' @ ap"
    using d1 l2 d3 l4 d5 l6 d7 l8 d9 l10 d11 l12 m13 v(1) by simp
  moreover have "(length dd = 1 \<or> length dd = 2) \<and> length mo = 2 \<and> length yy = 4
      \<and> length hh = 2 \<and> length mi = 2 \<and> length ss = 2
      \<and> list_all isDigit (dd @ mo @ yy @ hh @ mi @ ss) \<and> (ap = ''AM'' \<or> ap = ''PM'')"
    using d1 d3 d5 d7 d9 d11 m13 by simp
  ultimately show ?thesis using v by blast
qed


lemma takeDigits_append:
  "length a = n \<Longrightarrow> list_all isDigit a \<Longrightarrow> takeDigits n (a @ r) = Some (a, r)"
  by (simp add: takeDigits_def)

lemma not_isDigit_slash: "\<not> isDigit (CHR ''/'')"
  by (simp add: isDigit_def)

lemma takeDay_append:
  assumes "length dd = 1 \<or> length dd = 2" "list_all isDigit dd"
  shows "takeDay (dd @ CHR ''/'' # r) = Some (dd, CHR ''/'' # r)"
proof (cases "length dd = 2")
  case True
  with assms(2) show ?thesis by (simp add: takeDay_def takeDigits_append)
next
  case False
  with assms(1) have l: "length dd = 1" by simp
  then obtain x where x: "dd = [x]" by (cases dd) auto
  have "takeDigits 2 (dd @ CHR ''/'' # r) = None"
    unfolding x by (simp add: takeDigits_def not_isDigit_slash)
  moreover have "takeDigits 1 (dd @ CHR ''/'' # r) = Some (dd, CHR ''/'' # r)"
    using l assms(2) by (rule takeDigits_append)
  ultimately show ?thesis by (simp add: takeDay_def)
qed

lemma takeLiteral_Cons: "takeLiteral [c] (c # r) = Some r"
  by (simp add: takeLiteral_def)

lemma takeMeridiem_append:
  "ap = ''AM'' \<or> ap = ''PM'' \<Longrightarrow> takeMeridiem (ap @ r) = Some (ap, r)"
  by (auto simp: takeMeridiem_def)

lemma strictParse_conforming:
  assumes "length dd = 1 \<or> length dd = 2" "length mo = 2" "length yy = 4"
    "length hh = 2" "length mi = 2" "length ss = 2"
    and "list_all isDigit (dd @ mo @ yy @ hh @ mi @ ss)"
    and "ap = ''AM'' \<or> ap = ''PM''"
    and "validDate (toInt yy) (toInt mo) (toInt dd)"
    and "validTime (toInt hh) (toInt mi) (toInt ss)"
  shows "strictParse (dd @ ''/'' @ mo @ ''/'' @ yy @ '' '' @ hh @ '':'' @ mi @ '':'' @ ss @ '' '' @ ap)
    = Some (toInt yy, toInt mo, toInt dd)"
proof -
  from assms(7) have g: "list_all isDigit dd" "list_all isDigit mo" "list_all isDigit yy"
    "list_all isDigit hh" "list_all isDigit mi" "list_all isDigit ss" by simp_all
  note d = takeDay_append [OF assms(1) g(1)]
    and m = takeDigits_append [OF assms(2) g(2)]
    and y = takeDigits_append [OF assms(3) g(3)]
    and h = takeDigits_append [OF assms(4) g(4)]
    and i = takeDigits_append [OF assms(5) g(5)]
    and s = takeDigits_append [OF assms(6) g(6)]
    and a = takeMeridiem_append [OF assms(8), of "[]"]
  show ?thesis
    unfolding strictParse_def
    using assms(9,10) a
    by (simp add: d m y h i s takeLiteral_Cons)
qed

lemma normalizeDate_conforming:
  assumes "length dd = 1 \<or> length dd = 2" "length mo = 2" "length yy = 4"
    "length hh = 2" "length mi = 2" "length ss = 2"
    and "list_all isDigit (dd @ mo @ yy @ hh @ mi @ ss)"
    and "ap = ''AM'' \<or> ap = ''PM''"
    and "validDate (toInt yy) (toInt mo) (toInt dd)"
    and "validTime (toInt hh) (toInt mi) (toInt ss)"
  shows "normalizeDate (Some (dd @ ''/'' @ mo @ ''/'' @ yy @ '' '' @ hh @ '':'' @ mi @ '':'' @ ss @ '' '' @ ap))
    = yy @ ''-'' @ mo @ ''-'' @ zeroFill2 (toInt dd)"
proof -
  from assms(7) have "list_all isDigit mo" "list_all isDigit yy" by simp_all
  with assms(2,3) have "zeroFill4 (toInt yy) = yy" "zeroFill2 (toInt mo) = mo"
    by (simp_all add: zeroFill4_toInt zeroFill2_toInt)
  then show ?thesis
    unfolding normalizeDate_def option.case strictParse_conforming [OF assms] prod.case
    by simp
qed

lemma zeroFill2_one_digit:
  assumes "length dd = 1" "list_all isDigit dd"
  shows "zeroFill2 (toInt dd) = CHR ''0'' # dd"
proof -
  from assms(1) obtain x where x: "dd = [x]" by (cases dd) auto
  with assms(2) have d: "digitValue x < 10" "digitChar (digitValue x) = x"
    using isDigit_value by auto
  have "isDigit (CHR ''0'')" by (simp add: isDigit_def)
  from isDigit_value [OF this] have z: "digitChar 0 = CHR ''0''"
    by (simp add: digitValue_def)
  from d z show ?thesis unfolding x by (simp add: zeroFill2_def toInt_def)
qed

lemma normalizeDate_success:
  assumes "normalizeDate raw \<noteq> []"
  shows "\<exists>s dd mo yy hh mi ss ap.
      raw = Some s
      \<and> s = dd @ ''/'' @ mo @ ''/'' @ yy @ '' '' @ hh @ '':'' @ mi @ '':'' @ ss @ '' '' @ ap
      \<and> (length dd = 1 \<or> length dd = 2) \<and> length mo = 2 \<and> length yy = 4
      \<and> length hh = 2 \<and> length mi = 2 \<and> length ss = 2
      \<and> list_all isDigit (dd @ mo @ yy @ hh @ mi @ ss)
      \<and> (ap = ''AM'' \<or> ap = ''PM'')
      \<and> validDate (toInt yy) (toInt mo) (toInt dd)
      \<and> validTime (toInt hh) (toInt mi) (toInt ss)
      \<and> normalizeDate raw = yy @ ''-'' @ mo @ ''-'' @ zeroFill2 (toInt dd)"
proof -
  from assms obtain s where raw: "raw = Some s"
    by (cases raw) (auto simp: normalizeDate_def)
  with assms obtain y m d where p: "strictParse s = Some (y, m, d)"
    by (cases "strictParse s") (auto simp: normalizeDate_def)
  from strictParse_Some [OF p] obtain dd mo yy hh mi ss ap where
    s: "s = dd @ ''/'' @ mo @ ''/'' @ yy @ '' '' @ hh @ '':'' @ mi @ '':'' @ ss @ '' '' @ ap"
    and l: "length dd = 1 \<or> length dd = 2" "length mo = 2" "length yy = 4"
      "length hh = 2" "length mi = 2" "length ss = 2"
    and g: "list_all isDigit (dd @ mo @ yy @ hh @ mi @ ss)"
    and a: "ap = ''AM'' \<or> ap = ''PM''"
    and v: "validDate (toInt yy) (toInt mo) (toInt dd)"
      "validTime (toInt hh) (toInt mi) (toInt ss)"
    and n: "y = toInt yy" "m = toInt mo" "d = toInt dd"
    by blast
  from g l have "zeroFill4 (toInt yy) = yy" "zeroFill2 (toInt mo) = mo"
    by (simp_all add: zeroFill4_toInt zeroFill2_toInt)
  with raw p n have "normalizeDate raw = yy @ ''-'' @ mo @ ''-'' @ zeroFill2 (toInt dd)"
    by (simp add: normalizeDate_def)
  with raw s l g a v show ?thesis by blast
qed

text \<open>
  Claim C2. The date normalizer returns a non-empty string exactly for an input that
  is present and is one or two digits of day, \<open>/\<close>, two digits of month, \<open>/\<close>, four
  digits of year, a space, two digits each of hour, minute and second separated by
  \<open>:\<close>, a space and \<open>AM\<close> or \<open>PM\<close>, with a day and a month that exist on the
  calendar and a time that exists on the clock; for every such input it returns the
  year, the month and the day filled to two digits, joined by \<open>-\<close>, and for every
  other input the empty string. In particular \<open>5/03/2018 12:00:00 AM\<close> and
  \<open>05/03/2018 12:00:00 AM\<close> give \<open>2018-03-05\<close>, and \<open>2018-03-05\<close>, the empty string,
  an absent input, month 13, a month of one digit, 29 February 2019, 29 February
  1900 and 31 April give the empty string, while 29 February 2020 is a date. The
  day filled to two digits is the day itself, with \<open>0\<close> before a single digit; the
  calendar is the Gregorian one, and the clock has hours up to 23 and minutes and
  seconds up to 59.
\<close>

theorem normalizeDate_strict:
  "(normalizeDate raw \<noteq> [] \<longrightarrow>
      (\<exists>s dd mo yy hh mi ss ap.
        raw = Some s
        \<and> s = dd @ ''/'' @ mo @ ''/'' @ yy @ '' '' @ hh @ '':'' @ mi @ '':'' @ ss @ '' '' @ ap
        \<and> (length dd = 1 \<or> length dd = 2) \<and> length mo = 2 \<and> length yy = 4
        \<and> length hh = 2 \<and> length mi = 2 \<and> length ss = 2
        \<and> list_all isDigit (dd @ mo @ yy @ hh @ mi @ ss)
        \<and> (ap = ''AM'' \<or> ap = ''PM'')
        \<and> validDate (toInt yy) (toInt mo) (toInt dd)
        \<and> validTime (toInt hh) (toInt mi) (toInt ss)
        \<and> normalizeDate raw = yy @ ''-'' @ mo @ ''-'' @ zeroFill2 (toInt dd)))
   \<and> (\<forall>dd mo yy hh mi ss ap.
        (length dd = 1 \<or> length dd = 2) \<and> length mo = 2 \<and> length yy = 4
        \<and> length hh = 2 \<and> length mi = 2 \<and> length ss = 2
        \<and> list_all isDigit (dd @ mo @ yy @ hh @ mi @ ss)
        \<and> (ap = ''AM'' \<or> ap = ''PM'')
        \<and> validDate (toInt yy) (toInt mo) (toInt dd)
        \<and> validTime (toInt hh) (toInt mi) (toInt ss)
        \<longrightarrow> normalizeDate
              (Some (dd @ ''/'' @ mo @ ''/'' @ yy @ '' '' @ hh @ '':'' @ mi @ '':'' @ ss @ '' '' @ ap))
            = yy @ ''-'' @ mo @ ''-'' @ zeroFill2 (toInt dd)
          \<and> normalizeDate
              (Some (dd @ ''/'' @ mo @ ''/'' @ yy @ '' '' @ hh @ '':'' @ mi @ '':'' @ ss @ '' '' @ ap))
            \<noteq> [])
   \<and> normalizeDate (Some ''5/03/2018 12:00:00 AM'') = ''2018-03-05''
   \<and> normalizeDate (Some ''05/03/2018 12:00:00 AM'') = ''2018-03-05''
   \<and> normalizeDate (Some ''2018-03-05'') = []
   \<and> normalizeDate (Some []) = []
   \<and> normalizeDate None = []
   \<and> normalizeDate (Some ''5/13/2018 12:00:00 AM'') = []
   \<and> normalizeDate (Some ''5/3/2018 12:00:00 AM'') = []
   \<and> normalizeDate (Some ''29/02/2019 12:00:00 AM'') = []
   \<and> normalizeDate (Some ''29/02/2020 12:00:00 AM'') = ''2020-02-29''
   \<and> normalizeDate (Some ''29/02/1900 12:00:00 AM'') = []
   \<and> normalizeDate (Some ''31/04/2018 12:00:00 AM'') = []
   \<and> normalizeDate (Some ''31/12/2018 11:59:59 PM'') = ''2018-12-31''
   \<and> normalizeDate (Some ''0/03/2018 12:00:00 AM'') = []
   \<and> (\<forall>dd. list_all isDigit dd \<and> (length dd = 1 \<or> length dd = 2) \<longrightarrow>
        zeroFill2 (toInt dd) = (if length dd = 1 then CHR ''0'' # dd else dd))
   \<and> (\<forall>y m d. validDate y m d \<longleftrightarrow>
        1 \<le> m \<and> m \<le> 12 \<and> 1 \<le> d
        \<and> d \<le> (if m = 2
                 then (if (y mod 4 = 0 \<and> y mod 100 \<noteq> 0) \<or> y mod 400 = 0 then 29 else 28)
                 else if m = 4 \<or> m = 6 \<or> m = 9 \<or> m = 11 then 30 else 31))
   \<and> (\<forall>h mi sec. validTime h mi sec \<longleftrightarrow> h \<le> 23 \<and> mi \<le> 59 \<and> sec \<le> 59)"
proof -
  have 1: "normalizeDate raw \<noteq> [] \<longrightarrow>
      (\<exists>s dd mo yy hh mi ss ap.
        raw = Some s
        \<and> s = dd @ ''/'' @ mo @ ''/'' @ yy @ '' '' @ hh @ '':'' @ mi @ '':'' @ ss @ '' '' @ ap
        \<and> (length dd = 1 \<or> length dd = 2) \<and> length mo = 2 \<and> length yy = 4
        \<and> length hh = 2 \<and> length mi = 2 \<and> length ss = 2
        \<and> list_all isDigit (dd @ mo @ yy @ hh @ mi @ ss)
        \<and> (ap = ''AM'' \<or> ap = ''PM'')
        \<and> validDate (toInt yy) (toInt mo) (toInt dd)
        \<and> validTime (toInt hh) (toInt mi) (toInt ss)
        \<and> normalizeDate raw = yy @ ''-'' @ mo @ ''-'' @ zeroFill2 (toInt dd))"
    using normalizeDate_success by (rule impI)
  have 2: "\<forall>dd mo yy hh mi ss ap.
        (length dd = 1 \<or> length dd = 2) \<and> length mo = 2 \<and> length yy = 4
        \<and> length hh = 2 \<and> length mi = 2 \<and> length ss = 2
        \<and> list_all isDigit (dd @ mo @ yy @ hh @ mi @ ss)
        \<and> (ap = ''AM'' \<or> ap = ''PM'')
        \<and> validDate (toInt yy) (toInt mo) (toInt dd)
        \<and> validTime (toInt hh) (toInt mi) (toInt ss)
        \<longrightarrow> normalizeDate
              (Some (dd @ ''/'' @ mo @ ''/'' @ yy @ '' '' @ hh @ '':'' @ mi @ '':'' @ ss @ '' '' @ ap))
            = yy @ ''-'' @ mo @ ''-'' @ zeroFill2 (toInt dd)
          \<and> normalizeDate
              (Some (dd @ ''/'' @ mo @ ''/'' @ yy @ '' '' @ hh @ '':'' @ mi @ '':'' @ ss @ '' '' @ ap))
            \<noteq> []"
  proof (intro allI impI, elim conjE)
    fix dd mo yy hh mi ss ap :: string
    assume a: "length dd = 1 \<or> length dd = 2" "length mo = 2" "length yy = 4"
      "length hh = 2" "length mi = 2" "length ss = 2"
      "list_all isDigit (dd @ mo @ yy @ hh @ mi @ ss)"
      "ap = ''AM'' \<or> ap = ''PM''"
      "validDate (toInt yy) (toInt mo) (toInt dd)"
      "validTime (toInt hh) (toInt mi) (toInt ss)"
    note n = normalizeDate_conforming [OF a]
    from a(3) have "yy \<noteq> []" by auto
    then have "yy @ ''-'' @ mo @ ''-'' @ zeroFill2 (toInt dd) \<noteq> []" by simp
    with n show "normalizeDate
              (Some (dd @ ''/'' @ mo @ ''/'' @ yy @ '' '' @ hh @ '':'' @ mi @ '':'' @ ss @ '' '' @ ap))
            = yy @ ''-'' @ mo @ ''-'' @ zeroFill2 (toInt dd)
          \<and> normalizeDate
              (Some (dd @ ''/'' @ mo @ ''/'' @ yy @ '' '' @ hh @ '':'' @ mi @ '':'' @ ss @ '' '' @ ap))
            \<noteq> []"
      by (simp only: simp_thms)
  qed
  have 3: "normalizeDate (Some ''5/03/2018 12:00:00 AM'') = ''2018-03-05''" by code_simp
  have 4: "normalizeDate (Some ''05/03/2018 12:00:00 AM'') = ''2018-03-05''" by code_simp
  have 5: "normalizeDate (Some ''2018-03-05'') = []" by code_simp
  have 6: "normalizeDate (Some []) = []" by code_simp
  have 7: "normalizeDate None = []" by (simp add: normalizeDate_def)
  have 8: "normalizeDate (Some ''5/13/2018 12:00:00 AM'') = []" by code_simp
  have 9: "normalizeDate (Some ''5/3/2018 12:00:00 AM'') = []" by code_simp
  have 10: "normalizeDate (Some ''29/02/2019 12:00:00 AM'') = []" by code_simp
  have 11: "normalizeDate (Some ''29/02/2020 12:00:00 AM'') = ''2020-02-29''" by code_simp
  have 12: "normalizeDate (Some ''29/02/1900 12:00:00 AM'') = []" by code_simp
  have 13: "normalizeDate (Some ''31/04/2018 12:00:00 AM'') = []" by code_simp
  have 14: "normalizeDate (Some ''31/12/2018 11:59:59 PM'') = ''2018-12-31''" by code_simp
  have 15: "normalizeDate (Some ''0/03/2018 12:00:00 AM'') = []" by code_simp
  have 16: "\<forall>dd. list_all isDigit dd \<and> (length dd = 1 \<or> length dd = 2) \<longrightarrow>
        zeroFill2 (toInt dd) = (if length dd = 1 then CHR ''0'' # dd else dd)"
    using zeroFill2_toInt zeroFill2_one_digit by auto
  have 17: "\<forall>y m d. validDate y m d \<longleftrightarrow>
        1 \<le> m \<and> m \<le> 12 \<and> 1 \<le> d
        \<and> d \<le> (if m = 2
                 then (if (y mod 4 = 0 \<and> y mod 100 \<noteq> 0) \<or> y mod 400 = 0 then 29 else 28)
                 else if m = 4 \<or> m = 6 \<or> m = 9 \<or> m = 11 then 30 else 31)"
    unfolding validDate_def daysInMonth_def isLeapYear_def by blast
  have 18: "\<forall>h mi sec. validTime h mi sec \<longleftrightarrow> h \<le> 23 \<and> mi \<le> 59 \<and> sec \<le> 59"
    by (simp add: validTime_def)
  show ?thesis by (intro conjI; (rule 1 2 3 4 5 6 7 8 9 10 11 12 13 14 15 16 17 18))
qed

theorem normalizeDate_strict_witness:
  "normalizeDate (Some ''7/11/2017 12:00:00 AM'') \<noteq> []
   \<and> (\<exists>dd mo yy hh mi ss ap.
        ''7/11/2017 12:00:00 AM'' = dd @ ''/'' @ mo @ ''/'' @ yy @ '' '' @ hh @ '':'' @ mi @ '':'' @ ss @ '' '' @ ap
        \<and> length mo = 2 \<and> length yy = 4
        \<and> normalizeDate (Some ''7/11/2017 12:00:00 AM'') = yy @ ''-'' @ mo @ ''-'' @ zeroFill2 (toInt dd))
   \<and> (length ''14'' = 1 \<or> length ''14'' = 2) \<and> length ''08'' = 2 \<and> length ''2018'' = 4
   \<and> length ''12'' = 2 \<and> length ''00'' = 2
   \<and> list_all isDigit (''14'' @ ''08'' @ ''2018'' @ ''12'' @ ''00'' @ ''00'')
   \<and> validDate (toInt ''2018'') (toInt ''08'') (toInt ''14'')
   \<and> validTime (toInt ''12'') (toInt ''00'') (toInt ''00'')
   \<and> normalizeDate (Some ''14/08/2018 12:00:00 AM'') = ''2018-08-14''"
proof -
  have h: "normalizeDate (Some ''7/11/2017 12:00:00 AM'') \<noteq> []" by code_simp
  note t = normalizeDate_strict [of "Some ''7/11/2017 12:00:00 AM''", THEN conjunct1, THEN mp, OF h]
  from t have e: "\<exists>dd mo yy hh mi ss ap.
        ''7/11/2017 12:00:00 AM'' = dd @ ''/'' @ mo @ ''/'' @ yy @ '' '' @ hh @ '':'' @ mi @ '':'' @ ss @ '' '' @ ap
        \<and> length mo = 2 \<and> length yy = 4
        \<and> normalizeDate (Some ''7/11/2017 12:00:00 AM'') = yy @ ''-'' @ mo @ ''-'' @ zeroFill2 (toInt dd)"
    by (elim exE conjE) (simp only: option.inject, blast)
  have l: "(length ''14'' = 1 \<or> length ''14'' = 2)" "length ''08'' = 2" "length ''2018'' = 4"
    "length ''12'' = 2" "length ''00'' = 2" by simp_all
  have g: "list_all isDigit (''14'' @ ''08'' @ ''2018'' @ ''12'' @ ''00'' @ ''00'')" by code_simp
  have a: "''AM'' = ''AM'' \<or> ''AM'' = ''PM''" by simp
  have v: "validDate (toInt ''2018'') (toInt ''08'') (toInt ''14'')" by code_simp
  have w: "validTime (toInt ''12'') (toInt ''00'') (toInt ''00'')" by code_simp
  have z: "zeroFill2 (toInt ''14'') = ''14''" by code_simp
  note c = normalizeDate_strict [of None, THEN conjunct2, THEN conjunct1, rule_format,
      of "''14''" "''08''" "''2018''" "''12''" "''00''" "''00''" "''AM''", THEN conjunct1]
  have "normalizeDate (Some (''14'' @ ''/'' @ ''08'' @ ''/'' @ ''2018'' @ '' '' @ ''12'' @ '':'' @ ''00''
          @ '':'' @ ''00'' @ '' '' @ ''AM''))
      = ''2018'' @ ''-'' @ ''08'' @ ''-'' @ zeroFill2 (toInt ''14'')"
    by (rule c) (intro conjI l g a v w)
  then have r: "normalizeDate (Some ''14/08/2018 12:00:00 AM'') = ''2018-08-14''"
    unfolding z by simp
  show ?thesis by (intro conjI; (rule h e l g v w r))
qed

section \<open>The end-to-end scenario\<close>

lemma locateColumns_example:
  "locateColumns [''ApplicationNumber'', ''PropertyAddress'', ''PropertySuburbPostCode'',
      ''ApplicationDesc'', ''LodgementDate'']
   = \<lparr>applicationNumberColumnIndex = 0, receivedDateColumnIndex = 4, descriptionColumnIndex = 3,
      addressColumnIndex1 = 1, addressColumnIndex2 = 2\<rparr>"
  by (simp add: locateColumns_def locateCell_def initialMapping_def)

lemma normalizeDate_one_digit_hour: "normalizeDate (Some ''1/02/2020 9:00:00 AM'') = []"
  by code_simp

lemma normalizeDate_two_digit_hour: "normalizeDate (Some ''1/02/2020 09:00:00 AM'') = ''2020-02-01''"
  by code_simp

lemma extractRecord_example:
  "extractRecord
     (locateColumns [''ApplicationNumber'', ''PropertyAddress'', ''PropertySuburbPostCode'',
        ''ApplicationDesc'', ''LodgementDate''])
     url today [''DA123'', ''1 Smith St'', ''Adelaide 5000'', ''New shed'', ''1/02/2020 9:00:00 AM'']
   = Inr (Some \<lparr>applicationNumber = ''DA123'', address = ''1 Smith St Adelaide 5000'',
        description = ''New shed'', informationUrl = url, commentUrl = CommentUrl,
        scrapeDate = today, receivedDate = []\<rparr>)"
  unfolding locateColumns_example
  by (simp add: extractRecord_def andThen_def cellTrim_def trim_def isWhiteSpace_def
      combineAddress_def normalizeDate_one_digit_hour)

lemma extractRecord_example_two_digits:
  "extractRecord
     (locateColumns [''ApplicationNumber'', ''PropertyAddress'', ''PropertySuburbPostCode'',
        ''ApplicationDesc'', ''LodgementDate''])
     url today [''DA123'', ''1 Smith St'', ''Adelaide 5000'', ''New shed'', ''1/02/2020 09:00:00 AM'']
   = Inr (Some \<lparr>applicationNumber = ''DA123'', address = ''1 Smith St Adelaide 5000'',
        description = ''New shed'', informationUrl = url, commentUrl = CommentUrl,
        scrapeDate = today, receivedDate = ''2020-02-01''\<rparr>)"
  unfolding locateColumns_example
  by (simp add: extractRecord_def andThen_def cellTrim_def trim_def isWhiteSpace_def
      combineAddress_def normalizeDate_two_digit_hour)

text \<open>
  The scenario of claim C1 as the claim states it: for the header row
  \<open>ApplicationNumber, PropertyAddress, PropertySuburbPostCode, ApplicationDesc,
  LodgementDate\<close> and the data row \<open>DA123, 1 Smith St, Adelaide 5000, New shed,
  1/02/2020 9:00:00 AM\<close> the record that is emitted has the empty string as its
  received date, not \<open>2020-02-01\<close>: the hour \<open>9\<close> is one digit, and the pattern
  \<open>HH\<close> of the strict parse takes two.
\<close>

theorem pipeline_example_counterexample:
  "extractRecord
     (locateColumns [''ApplicationNumber'', ''PropertyAddress'', ''PropertySuburbPostCode'',
        ''ApplicationDesc'', ''LodgementDate''])
     ''https://data.sa.gov.au/a.csv'' ''2020-03-01''
     [''DA123'', ''1 Smith St'', ''Adelaide 5000'', ''New shed'', ''1/02/2020 9:00:00 AM'']
   = Inr (Some \<lparr>applicationNumber = ''DA123'', address = ''1 Smith St Adelaide 5000'',
        description = ''New shed'', informationUrl = ''https://data.sa.gov.au/a.csv'',
        commentUrl = CommentUrl, scrapeDate = ''2020-03-01'', receivedDate = []\<rparr>)
   \<and> extractRecord
     (locateColumns [''ApplicationNumber'', ''PropertyAddress'', ''PropertySuburbPostCode'',
        ''ApplicationDesc'', ''LodgementDate''])
     ''https://data.sa.gov.au/a.csv'' ''2020-03-01''
     [''DA123'', ''1 Smith St'', ''Adelaide 5000'', ''New shed'', ''1/02/2020 9:00:00 AM'']
   \<noteq> Inr (Some \<lparr>applicationNumber = ''DA123'', address = ''1 Smith St Adelaide 5000'',
        description = ''New shed'', informationUrl = ''https://data.sa.gov.au/a.csv'',
        commentUrl = CommentUrl, scrapeDate = ''2020-03-01'', receivedDate = ''2020-02-01''\<rparr>)"
  unfolding extractRecord_example by simp

text \<open>
  Claim C1, amended. For that header row and that data row, with any URL, scrape date
  and state of the table, the row body emits the record with application number
  \<open>DA123\<close>, address \<open>1 Smith St Adelaide 5000\<close>, description \<open>New shed\<close> and an
  empty received date, and the pipeline calls \<open>insertRow\<close> for exactly this one
  record; with the date cell \<open>1/02/2020 09:00:00 AM\<close> the received date is
  \<open>2020-02-01\<close>.
\<close>

theorem pipeline_example:
  "extractRecord
     (locateColumns [''ApplicationNumber'', ''PropertyAddress'', ''PropertySuburbPostCode'',
        ''ApplicationDesc'', ''LodgementDate''])
     url today [''DA123'', ''1 Smith St'', ''Adelaide 5000'', ''New shed'', ''1/02/2020 9:00:00 AM'']
   = Inr (Some \<lparr>applicationNumber = ''DA123'', address = ''1 Smith St Adelaide 5000'',
        description = ''New shed'', informationUrl = url, commentUrl = CommentUrl,
        scrapeDate = today, receivedDate = []\<rparr>)
   \<and> processCsv today url
       [[''ApplicationNumber'', ''PropertyAddress'', ''PropertySuburbPostCode'',
         ''ApplicationDesc'', ''LodgementDate''],
        [''DA123'', ''1 Smith St'', ''Adelaide 5000'', ''New shed'', ''1/02/2020 9:00:00 AM'']] w
     = insertRow
         \<lparr>applicationNumber = ''DA123'', address = ''1 Smith St Adelaide 5000'',
          description = ''New shed'', informationUrl = url, commentUrl = CommentUrl,
          scrapeDate = today, receivedDate = []\<rparr>
         (consoleLog (Retrieving url) w)
   \<and> extractRecord
     (locateColumns [''ApplicationNumber'', ''PropertyAddress'', ''PropertySuburbPostCode'',
        ''ApplicationDesc'', ''LodgementDate''])
     url today [''DA123'', ''1 Smith St'', ''Adelaide 5000'', ''New shed'', ''1/02/2020 09:00:00 AM'']
   = Inr (Some \<lparr>applicationNumber = ''DA123'', address = ''1 Smith St Adelaide 5000'',
        description = ''New shed'', informationUrl = url, commentUrl = CommentUrl,
        scrapeDate = today, receivedDate = ''2020-02-01''\<rparr>)"
proof -
  let ?h = "[''ApplicationNumber'', ''PropertyAddress'', ''PropertySuburbPostCode'',
         ''ApplicationDesc'', ''LodgementDate'']"
  let ?da = "\<lparr>applicationNumber = ''DA123'', address = ''1 Smith St Adelaide 5000'',
          description = ''New shed'', informationUrl = url, commentUrl = CommentUrl,
          scrapeDate = today, receivedDate = []\<rparr>"
  have g: "\<not> mandatoryMissing (locateColumns ?h)"
    unfolding locateColumns_example by (simp add: mandatoryMissing_def)
  have "processCsv today url
       [?h, [''DA123'', ''1 Smith St'', ''Adelaide 5000'', ''New shed'', ''1/02/2020 9:00:00 AM'']] w
     = insertRow ?da (consoleLog (Retrieving url) w)"
    using g
    by (cases "insertRow ?da (consoleLog (Retrieving url) w)")
       (auto simp: processCsv_def Let_def extractRecord_example split: sum.splits)
  then show ?thesis
    using extractRecord_example [of url today] extractRecord_example_two_digits [of url today]
    by (intro conjI)
qed

end
